theory Spec2Isabelle
  imports Complex_Main
begin

section \<open>Expense management backend: the expense controller\<close>

text \<open>
  A shallow embedding of \<^verbatim>\<open>src/controllers/expense.controller.js\<close>. Every handler is the
  body of the async function wrapped by \<^verbatim>\<open>asyncHandler\<close>: a thrown error (an
  \<^verbatim>\<open>ApiError\<close> or a rejected promise of the store or the cache client) is the left
  summand of the result, the response written with \<^verbatim>\<open>res.status(..).json(..)\<close> the right
  one. The document store (the ODM model \<^verbatim>\<open>Expense\<close>) and the cache client are
  external collaborators; their operations are modelled by their documented contracts
  and carry the prefix \<open>Expense_\<close> or \<open>redisClient_\<close>. The handlers
  \<^verbatim>\<open>bulkUploadExpenses\<close> and \<^verbatim>\<open>getExpenseSummary\<close> and the authentication middleware are
  not embedded: no property below is about them.
\<close>

subsection \<open>Data model\<close>

text \<open>
  An ObjectId is represented by its hexadecimal text, as printed by a template literal:
  24 digits, the letters in lower case. The ids of the stored documents and of the
  owners are such texts.
\<close>

type_synonym objectId = string

text \<open>
  An id that comes with a request is any text. The ODM casts it to an ObjectId when it
  casts the filter: a text of 24 hexadecimal digits, in either case, is the ObjectId of
  those digits, and another text is refused with a cast error. A text of 12 characters
  is the exception: some versions of the driver read it as the 12 bytes of an ObjectId
  and others refuse it, so what the handlers do with it is not modelled.
\<close>

definition valid_id :: "string \<Rightarrow> bool" where
  "valid_id s = (length s = 24 \<and> list_all (\<lambda>c. c \<in> set ''0123456789abcdefABCDEF'') s)"

definition lower_hex :: "char \<Rightarrow> char" where
  "lower_hex c = (case map_of (zip ''ABCDEF'' ''abcdef'') c of None \<Rightarrow> c | Some l \<Rightarrow> l)"

definition castObjectId :: "string \<Rightarrow> objectId" where
  "castObjectId s = map lower_hex s"

text \<open>
  One expense document. \<open>amount\<close> is a JavaScript number, modelled as an exact rational
  (rounding is not modelled); \<open>date\<close> is an instant in milliseconds since the epoch.
\<close>

record expense =
  eid :: objectId
  user :: objectId
  amount :: rat
  description :: string
  date :: int
  category :: string
  paymentMethod :: string

text \<open>
  The collection, in its natural order, and whether the store can be reached. An
  operation on an unreachable store rejects.
\<close>

record store =
  docs :: "expense list"
  reachable :: bool

datatype error =
    ApiError nat string
  | StoreUnavailable
  | CacheUnavailable
  | CastError string
  | MongoServerError string string
  | OutsideModel string

text \<open>
  \<open>MongoServerError\<close> carries the code name of a server error and the operator or field
  it is about. \<open>OutsideModel\<close> is no error of the program: it marks the inputs whose
  behaviour this embedding does not describe.
\<close>

datatype 'a ApiResponse = ApiResponse (statusCode: nat) (data: 'a) (message: string)

text \<open>A response: the status given to \<^verbatim>\<open>res.status\<close> and the body given to \<^verbatim>\<open>res.json\<close>.\<close>

type_synonym 'a response = "nat \<times> 'a ApiResponse"

subsection \<open>Printing numbers\<close>

definition digit_char :: "nat \<Rightarrow> char" where
  "digit_char d = ''0123456789'' ! d"

fun show_nat :: "nat \<Rightarrow> string" where
  "show_nat n = (if n < 10 then [digit_char n] else show_nat (n div 10) @ [digit_char (n mod 10)])"

definition is_digits :: "string \<Rightarrow> bool" where
  "is_digits s = (s \<noteq> [] \<and> list_all (\<lambda>c. c \<in> set ''0123456789'') s)"

definition digits_val :: "string \<Rightarrow> nat" where
  "digits_val s = foldl (\<lambda>a c. 10 * a + (of_char c - 48)) 0 s"

definition show_int :: "int \<Rightarrow> string" where
  "show_int i = (if i < 0 then CHR ''-'' # show_nat (nat (- i)) else show_nat (nat i))"

subsection \<open>Store filters\<close>

text \<open>
  A query document is a conjunction of conditions on fields. \<open>IdIs\<close> and \<open>IdIn\<close> carry the
  id texts of the request, which match a document by the ObjectId they are cast to.
  \<open>DateBetween\<close> is \<^verbatim>\<open>{ $gte: lo, $lte: hi }\<close> on \<open>date\<close>; a bound is \<open>None\<close> when the
  \<^verbatim>\<open>Date\<close> object is invalid. The ODM refuses to cast a filter with an ill-formed id or
  an invalid date.
\<close>

datatype cond =
    UserIs objectId
  | IdIs string
  | IdIn "string list"
  | CategoryIs string
  | PaymentMethodIs string
  | DateBetween "int option" "int option"

type_synonym query_filter = "cond list"

fun holds :: "cond \<Rightarrow> expense \<Rightarrow> bool" where
  "holds (UserIs u) e = (user e = u)"
| "holds (IdIs i) e = (eid e = castObjectId i)"
| "holds (IdIn is) e = (eid e \<in> set (map castObjectId is))"
| "holds (CategoryIs c) e = (category e = c)"
| "holds (PaymentMethodIs p) e = (paymentMethod e = p)"
| "holds (DateBetween lo hi) e =
     (case (lo, hi) of (Some l, Some h) \<Rightarrow> l \<le> date e \<and> date e \<le> h | _ \<Rightarrow> False)"

definition matches :: "query_filter \<Rightarrow> expense \<Rightarrow> bool" where
  "matches q e = list_all (\<lambda>c. holds c e) q"

fun castable :: "cond \<Rightarrow> bool" where
  "castable (DateBetween lo hi) = (lo \<noteq> None \<and> hi \<noteq> None)"
| "castable (IdIs i) = valid_id i"
| "castable (IdIn is) = list_all valid_id is"
| "castable _ = True"

text \<open>The conditions with an id text of 12 characters.\<close>

fun unmodelled :: "cond \<Rightarrow> bool" where
  "unmodelled (IdIs i) = (length i = 12)"
| "unmodelled (IdIn is) = list_ex (\<lambda>i. length i = 12) is"
| "unmodelled _ = False"

text \<open>The path of the first condition that cannot be cast.\<close>

definition cast_path :: "query_filter \<Rightarrow> string" where
  "cast_path q =
     (case find (\<lambda>c. \<not> castable c) q of Some (DateBetween lo hi) \<Rightarrow> ''date'' | _ \<Rightarrow> ''_id'')"

text \<open>What every store operation checks first: the connection, then the cast of the filter.\<close>

definition store_guard :: "store \<Rightarrow> query_filter \<Rightarrow> error option" where
  "store_guard st q =
     (if \<not> reachable st then Some StoreUnavailable
      else if list_ex unmodelled q then Some (OutsideModel ''an id text of 12 characters'')
      else if \<not> list_all castable q then Some (CastError (cast_path q))
      else None)"

subsection \<open>Single-record operations\<close>

text \<open>
  The request body of add and update. A field is \<open>None\<close> when it is missing from the
  body. Bodies are well typed: \<open>amount\<close> is a number, the others are strings, and the
  date string is represented by the instant it denotes (\<open>None\<close> also stands for the
  empty date string). The schema's casting of ill-typed bodies is not modelled.
\<close>

record body =
  b_amount :: "rat option"
  b_description :: "string option"
  b_date :: "int option"
  b_category :: "string option"
  b_paymentMethod :: "string option"

text \<open>JavaScript truthiness of a body field: missing, zero and the empty string are falsy.\<close>

definition truthy_num :: "rat option \<Rightarrow> bool" where
  "truthy_num a = (case a of None \<Rightarrow> False | Some x \<Rightarrow> x \<noteq> 0)"

definition truthy_str :: "string option \<Rightarrow> bool" where
  "truthy_str s = (case s of None \<Rightarrow> False | Some x \<Rightarrow> x \<noteq> [])"

definition truthy_date :: "int option \<Rightarrow> bool" where
  "truthy_date d = (d \<noteq> None)"

text \<open>
  \<^verbatim>\<open>addExpense\<close>. \<^verbatim>\<open>Expense.create\<close> depends on the schema of
  \<^verbatim>\<open>models/expense.model.js\<close>, which is not part of the sources at hand: it is the
  parameter \<open>create\<close>, which returns the created document and the new store, or throws.
\<close>

definition addExpense ::
  "(store \<Rightarrow> objectId \<Rightarrow> body \<Rightarrow> error + expense \<times> store) \<Rightarrow> store \<Rightarrow> objectId \<Rightarrow> body
     \<Rightarrow> (error + expense response) \<times> store" where
  "addExpense create st userId b =
     (if \<not> truthy_num (b_amount b) \<or> \<not> truthy_str (b_description b) \<or> \<not> truthy_date (b_date b)
         \<or> \<not> truthy_str (b_category b) \<or> \<not> truthy_str (b_paymentMethod b)
      then (Inl (ApiError 400 ''All fields are required''), st)
      else (case create st userId b of
              Inl err \<Rightarrow> (Inl err, st)
            | Inr (expense, st') \<Rightarrow>
                (Inr (201, ApiResponse 201 expense ''Expense added successfully''), st')))"

text \<open>
  The update document \<^verbatim>\<open>{ amount, description, date, category, paymentMethod }\<close>
  applied as a set of the fields that are defined (the ODM strips undefined keys).
\<close>

definition apply_update :: "body \<Rightarrow> expense \<Rightarrow> expense" where
  "apply_update b e =
     e\<lparr> amount := (case b_amount b of None \<Rightarrow> amount e | Some a \<Rightarrow> a),
        description := (case b_description b of None \<Rightarrow> description e | Some d \<Rightarrow> d),
        date := (case b_date b of None \<Rightarrow> date e | Some d \<Rightarrow> d),
        category := (case b_category b of None \<Rightarrow> category e | Some c \<Rightarrow> c),
        paymentMethod := (case b_paymentMethod b of None \<Rightarrow> paymentMethod e | Some p \<Rightarrow> p) \<rparr>"

text \<open>Replace the first document that matches; the new document is returned (\<^verbatim>\<open>new: true\<close>).\<close>

fun update_first :: "query_filter \<Rightarrow> body \<Rightarrow> expense list \<Rightarrow> expense option \<times> expense list" where
  "update_first q b [] = (None, [])"
| "update_first q b (e # es) =
     (if matches q e then (Some (apply_update b e), apply_update b e # es)
      else (case update_first q b es of (r, es') \<Rightarrow> (r, e # es')))"

definition Expense_findOneAndUpdate ::
  "store \<Rightarrow> query_filter \<Rightarrow> body \<Rightarrow> (error + expense option) \<times> store" where
  "Expense_findOneAndUpdate st q b =
     (case store_guard st q of
        Some err \<Rightarrow> (Inl err, st)
      | None \<Rightarrow> (case update_first q b (docs st) of (r, ds) \<Rightarrow> (Inr r, st\<lparr>docs := ds\<rparr>)))"

definition updateExpense ::
  "store \<Rightarrow> objectId \<Rightarrow> string \<Rightarrow> body \<Rightarrow> (error + expense response) \<times> store" where
  "updateExpense st userId id' b =
     (case Expense_findOneAndUpdate st [IdIs id', UserIs userId] b of
        (Inl err, st') \<Rightarrow> (Inl err, st')
      | (Inr None, st') \<Rightarrow> (Inl (ApiError 404 ''Expense not found''), st')
      | (Inr (Some expense), st') \<Rightarrow>
          (Inr (200, ApiResponse 200 expense ''Expense updated successfully''), st'))"

text \<open>Remove the first document that matches and return it.\<close>

fun delete_first :: "query_filter \<Rightarrow> expense list \<Rightarrow> expense option \<times> expense list" where
  "delete_first q [] = (None, [])"
| "delete_first q (e # es) =
     (if matches q e then (Some e, es)
      else (case delete_first q es of (r, es') \<Rightarrow> (r, e # es')))"

definition Expense_findOneAndDelete ::
  "store \<Rightarrow> query_filter \<Rightarrow> (error + expense option) \<times> store" where
  "Expense_findOneAndDelete st q =
     (case store_guard st q of
        Some err \<Rightarrow> (Inl err, st)
      | None \<Rightarrow> (case delete_first q (docs st) of (r, ds) \<Rightarrow> (Inr r, st\<lparr>docs := ds\<rparr>)))"

definition deleteExpense ::
  "store \<Rightarrow> objectId \<Rightarrow> string \<Rightarrow> (error + unit response) \<times> store" where
  "deleteExpense st userId id' =
     (case Expense_findOneAndDelete st [IdIs id', UserIs userId] of
        (Inl err, st') \<Rightarrow> (Inl err, st')
      | (Inr None, st') \<Rightarrow> (Inl (ApiError 404 ''Expense not found''), st')
      | (Inr (Some expense), st') \<Rightarrow>
          (Inr (200, ApiResponse 200 () ''Expense deleted successfully''), st'))"

subsection \<open>Bulk delete\<close>

text \<open>
  The \<^verbatim>\<open>ids\<close> field of the body: missing (or another falsy value), a value that is not
  an array, or an array of id texts.
\<close>

datatype ids_field = NoIds | NotAnArray | IdArray "string list"

text \<open>\<^verbatim>\<open>deleteMany\<close> removes every matching document and reports how many it removed.\<close>

definition Expense_deleteMany :: "store \<Rightarrow> query_filter \<Rightarrow> (error + nat) \<times> store" where
  "Expense_deleteMany st q =
     (case store_guard st q of
        Some err \<Rightarrow> (Inl err, st)
      | None \<Rightarrow>
          (Inr (length (filter (matches q) (docs st))),
           st\<lparr>docs := filter (\<lambda>e. \<not> matches q e) (docs st)\<rparr>))"

definition bulkDeleteExpenses ::
  "store \<Rightarrow> objectId \<Rightarrow> ids_field \<Rightarrow> (error + nat response) \<times> store" where
  "bulkDeleteExpenses st userId ids =
     (case ids of
        IdArray (i # is) \<Rightarrow>
          (case Expense_deleteMany st [IdIn (i # is), UserIs userId] of
             (Inl err, st') \<Rightarrow> (Inl err, st')
           | (Inr deletedCount, st') \<Rightarrow>
               (Inr (200, ApiResponse 200 deletedCount
                       (show_nat deletedCount @ '' expenses deleted successfully'')), st'))
      | _ \<Rightarrow> (Inl (ApiError 400 ''Valid expense IDs are required''), st))"

subsection \<open>Query parameters and the cache key\<close>

text \<open>
  \<^verbatim>\<open>req.query\<close>: the properties of the parsed object in the object's own order, each
  with a plain string value (repeated and bracketed parameters, which the parser turns
  into arrays and objects, are not modelled). The order of an object is the order in
  which the parameters were written, except that names that are array indices come
  first, in ascending order.
\<close>

type_synonym query = "(string \<times> string) list"

definition param :: "query \<Rightarrow> string \<Rightarrow> string option" where
  "param q k = map_of q k"

text \<open>\<^verbatim>\<open>JSON.stringify\<close> of a string: quotes, backslashes and control characters escaped.\<close>

definition hex_digit :: "nat \<Rightarrow> char" where
  "hex_digit d = ''0123456789abcdef'' ! d"

definition escape_char :: "char \<Rightarrow> string" where
  "escape_char c =
     (if c = CHR 0x22 then [CHR 0x5C, CHR 0x22]
      else if c = CHR 0x5C then [CHR 0x5C, CHR 0x5C]
      else if c = CHR 0x08 then [CHR 0x5C, CHR ''b'']
      else if c = CHR 0x09 then [CHR 0x5C, CHR ''t'']
      else if c = CHR 0x0A then [CHR 0x5C, CHR ''n'']
      else if c = CHR 0x0C then [CHR 0x5C, CHR ''f'']
      else if c = CHR 0x0D then [CHR 0x5C, CHR ''r'']
      else if (of_char c :: nat) < 0x20 then
        [CHR 0x5C, CHR ''u'', CHR ''0'', CHR ''0'',
         hex_digit (of_char c div 16), hex_digit (of_char c mod 16)]
      else [c])"

definition quote :: "string \<Rightarrow> string" where
  "quote s = CHR 0x22 # concat (map escape_char s) @ [CHR 0x22]"

fun join :: "string \<Rightarrow> string list \<Rightarrow> string" where
  "join sep [] = []"
| "join sep [x] = x"
| "join sep (x # y # ys) = x @ sep @ join sep (y # ys)"

text \<open>\<^verbatim>\<open>JSON.stringify(req.query)\<close>: the properties in their order, no canonical order.\<close>

definition JSON_property :: "string \<times> string \<Rightarrow> string" where
  "JSON_property kv = quote (fst kv) @ '':'' @ quote (snd kv)"

definition JSON_stringify_query :: "query \<Rightarrow> string" where
  "JSON_stringify_query q = ''{'' @ join '','' (map JSON_property q) @ ''}''"

definition cacheKey :: "objectId \<Rightarrow> query \<Rightarrow> string" where
  "cacheKey userId q = ''expenses:'' @ userId @ '':'' @ JSON_stringify_query q"

subsection \<open>The cache client\<close>

text \<open>
  The cache: the value and the expiry instant (in seconds) stored under each key, and
  whether a \<^verbatim>\<open>get\<close> and a \<^verbatim>\<open>setEx\<close> command can be served. A command that cannot be
  served rejects.
\<close>

record redis =
  entries :: "string \<Rightarrow> (string \<times> nat) option"
  get_ok :: bool
  set_ok :: bool

definition redisClient_get :: "redis \<Rightarrow> nat \<Rightarrow> string \<Rightarrow> error + string option" where
  "redisClient_get rc now key =
     (if \<not> get_ok rc then Inl CacheUnavailable
      else Inr (case entries rc key of
                  None \<Rightarrow> None
                | Some (v, expiry) \<Rightarrow> if now < expiry then Some v else None))"

definition redisClient_setEx :: "redis \<Rightarrow> nat \<Rightarrow> string \<Rightarrow> nat \<Rightarrow> string \<Rightarrow> error + redis" where
  "redisClient_setEx rc now key seconds v =
     (if \<not> set_ok rc then Inl CacheUnavailable
      else Inr (rc\<lparr>entries := (entries rc)(key \<mapsto> (v, now + seconds))\<rparr>))"

subsection \<open>JSON values and their text\<close>

text \<open>
  A JSON value. A number is kept as its literal, the text that \<^verbatim>\<open>JSON.stringify\<close> writes
  for it; an object is the list of its properties in their order.
\<close>

datatype json =
    JNull
  | JBool bool
  | JNumber string
  | JString string
  | JArray "json list"
  | JObject "(string \<times> json) list"

text \<open>\<^verbatim>\<open>JSON.stringify\<close> of a value: no white space, strings escaped by \<open>quote\<close>.\<close>

fun JSON_stringify :: "json \<Rightarrow> string"
  and stringify_elements :: "json list \<Rightarrow> string"
  and stringify_members :: "(string \<times> json) list \<Rightarrow> string" where
  "JSON_stringify JNull = ''null''"
| "JSON_stringify (JBool b) = (if b then ''true'' else ''false'')"
| "JSON_stringify (JNumber lit) = lit"
| "JSON_stringify (JString s) = quote s"
| "JSON_stringify (JArray vs) = ''['' @ stringify_elements vs"
| "JSON_stringify (JObject ms) = ''{'' @ stringify_members ms"
| "stringify_elements [] = '']''"
| "stringify_elements (v # vs) =
     JSON_stringify v @ (if vs = [] then '']'' else '','' @ stringify_elements vs)"
| "stringify_members [] = ''}''"
| "stringify_members ((k, v) # ms) =
     quote k @ '':'' @ JSON_stringify v @ (if ms = [] then ''}'' else '','' @ stringify_members ms)"

text \<open>The grammar of a JSON number: sign, integer part without leading zero, fraction, exponent.\<close>

definition is_digit :: "char \<Rightarrow> bool" where
  "is_digit c = (c \<in> set ''0123456789'')"

definition num_char :: "char \<Rightarrow> bool" where
  "num_char c = (c \<in> set ''+-.0123456789Ee'')"

definition exponent_ok :: "string \<Rightarrow> bool" where
  "exponent_ok s =
     (case s of
        [] \<Rightarrow> True
      | c # cs \<Rightarrow> (c = CHR ''e'' \<or> c = CHR ''E'')
          \<and> is_digits (case cs of [] \<Rightarrow> [] | d # ds \<Rightarrow> if d = CHR ''+'' \<or> d = CHR ''-'' then ds else cs))"

definition fraction_ok :: "string \<Rightarrow> bool" where
  "fraction_ok s =
     (case s of
        [] \<Rightarrow> True
      | c # cs \<Rightarrow>
          if c = CHR ''.'' then takeWhile is_digit cs \<noteq> [] \<and> exponent_ok (dropWhile is_digit cs)
          else exponent_ok s)"

definition number_literal :: "string \<Rightarrow> bool" where
  "number_literal s =
     (let u = (case s of [] \<Rightarrow> [] | c # cs \<Rightarrow> if c = CHR ''-'' then cs else s);
          i = takeWhile is_digit u
      in i \<noteq> [] \<and> (i = ''0'' \<or> hd i \<noteq> CHR ''0'') \<and> fraction_ok (dropWhile is_digit u))"

text \<open>
  The values that \<^verbatim>\<open>JSON.stringify\<close> can have written: numbers are literals of the
  grammar, and the names of an object are distinct and none is a text of digits (an
  object lists such names first, whatever the order of the text).
\<close>

fun wf_json :: "json \<Rightarrow> bool"
  and wf_elements :: "json list \<Rightarrow> bool"
  and wf_members :: "(string \<times> json) list \<Rightarrow> bool" where
  "wf_json (JNumber lit) = (list_all num_char lit \<and> number_literal lit)"
| "wf_json (JArray vs) = wf_elements vs"
| "wf_json (JObject ms) =
     (distinct (map fst ms) \<and> list_all (\<lambda>k. \<not> is_digits k) (map fst ms) \<and> wf_members ms)"
| "wf_json _ = True"
| "wf_elements [] = True"
| "wf_elements (v # vs) = (wf_json v \<and> wf_elements vs)"
| "wf_members [] = True"
| "wf_members ((k, v) # ms) = (wf_json v \<and> wf_members ms)"

text \<open>
  Reading a text back. \<open>unescape\<close> reads a string after its opening quote; \<open>parse_value\<close>
  reads the texts that \<open>JSON_stringify\<close> writes, with the length of the text as fuel.
\<close>

definition hex_val :: "char \<Rightarrow> nat" where
  "hex_val c = length (takeWhile (\<lambda>x. x \<noteq> c) ''0123456789abcdef'')"

definition unescape_short :: "char \<Rightarrow> char option" where
  "unescape_short d =
     (if d = CHR 0x22 then Some (CHR 0x22)
      else if d = CHR 0x5C then Some (CHR 0x5C)
      else if d = CHR ''b'' then Some (CHR 0x08)
      else if d = CHR ''t'' then Some (CHR 0x09)
      else if d = CHR ''n'' then Some (CHR 0x0A)
      else if d = CHR ''f'' then Some (CHR 0x0C)
      else if d = CHR ''r'' then Some (CHR 0x0D)
      else None)"

fun unescape :: "string \<Rightarrow> (string \<times> string) option" where
  "unescape [] = None"
| "unescape (c # cs) =
     (if c = CHR 0x22 then Some ([], cs)
      else if c = CHR 0x5C then
        (case cs of
           [] \<Rightarrow> None
         | d # ds \<Rightarrow>
             if d = CHR ''u'' then
               (case ds of
                  a # b # h1 # h2 # r \<Rightarrow>
                    if a = CHR ''0'' \<and> b = CHR ''0'' \<and> hex_val h1 < 16 \<and> hex_val h2 < 16
                    then (case unescape r of
                            None \<Rightarrow> None
                          | Some (s, r') \<Rightarrow> Some (char_of (16 * hex_val h1 + hex_val h2) # s, r'))
                    else None
                | _ \<Rightarrow> None)
             else
               (case unescape_short d of
                  None \<Rightarrow> None
                | Some x \<Rightarrow>
                    (case unescape ds of None \<Rightarrow> None | Some (s, r') \<Rightarrow> Some (x # s, r'))))
      else if (of_char c :: nat) < 0x20 then None
      else (case unescape cs of None \<Rightarrow> None | Some (s, r') \<Rightarrow> Some (c # s, r')))"

fun parse_value :: "nat \<Rightarrow> string \<Rightarrow> (json \<times> string) option"
  and parse_elements :: "nat \<Rightarrow> string \<Rightarrow> (json list \<times> string) option"
  and parse_members :: "nat \<Rightarrow> string \<Rightarrow> ((string \<times> json) list \<times> string) option" where
  "parse_value 0 s = None"
| "parse_value (Suc n) s =
     (case s of
        [] \<Rightarrow> None
      | c # cs \<Rightarrow>
          if c = CHR 0x22 then
            (case unescape cs of None \<Rightarrow> None | Some (t, r) \<Rightarrow> Some (JString t, r))
          else if c = CHR ''['' then
            (case parse_elements n cs of None \<Rightarrow> None | Some (vs, r) \<Rightarrow> Some (JArray vs, r))
          else if c = CHR ''{'' then
            (case parse_members n cs of None \<Rightarrow> None | Some (ms, r) \<Rightarrow> Some (JObject ms, r))
          else if take 4 s = ''null'' then Some (JNull, drop 4 s)
          else if take 4 s = ''true'' then Some (JBool True, drop 4 s)
          else if take 5 s = ''false'' then Some (JBool False, drop 5 s)
          else if num_char c then Some (JNumber (takeWhile num_char s), dropWhile num_char s)
          else None)"
| "parse_elements 0 s = None"
| "parse_elements (Suc n) s =
     (case s of
        [] \<Rightarrow> None
      | c # cs \<Rightarrow>
          if c = CHR '']'' then Some ([], cs)
          else
            (case parse_value n s of
               None \<Rightarrow> None
             | Some (v, r) \<Rightarrow>
                 (case r of
                    [] \<Rightarrow> None
                  | d # ds \<Rightarrow>
                      if d = CHR '']'' then Some ([v], ds)
                      else if d = CHR '','' then
                        (case parse_elements n ds of
                           None \<Rightarrow> None
                         | Some (vs, r') \<Rightarrow> if vs = [] then None else Some (v # vs, r'))
                      else None)))"
| "parse_members 0 s = None"
| "parse_members (Suc n) s =
     (case s of
        [] \<Rightarrow> None
      | c # cs \<Rightarrow>
          if c = CHR ''}'' then Some ([], cs)
          else if c = CHR 0x22 then
            (case unescape cs of
               None \<Rightarrow> None
             | Some (k, r0) \<Rightarrow>
                 (case r0 of
                    [] \<Rightarrow> None
                  | e # r1 \<Rightarrow>
                      if e \<noteq> CHR '':'' then None
                      else
                        (case parse_value n r1 of
                           None \<Rightarrow> None
                         | Some (v, r) \<Rightarrow>
                             (case r of
                                [] \<Rightarrow> None
                              | d # ds \<Rightarrow>
                                  if d = CHR ''}'' then Some ([(k, v)], ds)
                                  else if d = CHR '','' then
                                    (case parse_members n ds of
                                       None \<Rightarrow> None
                                     | Some (ms, r') \<Rightarrow>
                                         if ms = [] then None else Some ((k, v) # ms, r'))
                                  else None))))
          else None)"

text \<open>
  \<^verbatim>\<open>JSON.parse\<close>, for the texts that \<^verbatim>\<open>JSON.stringify\<close> writes. \<open>None\<close> stands for every
  other text: one that is no JSON, for which \<^verbatim>\<open>JSON.parse\<close> throws, and JSON in another
  spelling (white space, other escapes), which is not modelled.
\<close>

definition JSON_parse :: "string \<Rightarrow> json option" where
  "JSON_parse s =
     (case parse_value (length s) s of
        Some (v, []) \<Rightarrow> if wf_json v \<and> JSON_stringify v = s then Some v else None
      | _ \<Rightarrow> None)"

subsection \<open>Listing expenses\<close>

text \<open>
  What the handlers use and the sources do not define: \<^verbatim>\<open>new Date(string)\<close> (\<open>None\<close> is
  an invalid date) and the JSON value of one document (its \<^verbatim>\<open>toJSON\<close>), which depends on
  the schema.
\<close>

record externals =
  Date_parse :: "string \<Rightarrow> int option"
  doc_toJSON :: "expense \<Rightarrow> json"

text \<open>
  Numeric coercion of a query string, for the strings that denote an integer: the empty
  string and decimal digits with an optional sign. \<open>None\<close> stands for every other
  string (fractions, exponents, other radices, text) and for the negative zero, which
  no integer is; what the handler does with those is not modelled. The precision of a
  JavaScript number is not modelled either.
\<close>

definition ToNumber :: "string \<Rightarrow> int option" where
  "ToNumber s =
     (case s of
        [] \<Rightarrow> Some 0
      | c # cs \<Rightarrow>
          if c = CHR ''-'' \<and> is_digits cs then
            (if digits_val cs = 0 then None else Some (- int (digits_val cs)))
          else if c = CHR ''+'' \<and> is_digits cs then Some (int (digits_val cs))
          else if is_digits s then Some (int (digits_val s))
          else None)"

text \<open>A destructured parameter with a numeric default, as a number.\<close>

definition num_param :: "query \<Rightarrow> string \<Rightarrow> int \<Rightarrow> int option" where
  "num_param q k dflt = (case param q k of None \<Rightarrow> Some dflt | Some s \<Rightarrow> ToNumber s)"

datatype jsnum = Finite int | Infinity | NaN

text \<open>\<^verbatim>\<open>Math.ceil(total / limit)\<close>.\<close>

definition Math_ceil_div :: "nat \<Rightarrow> int \<Rightarrow> jsnum" where
  "Math_ceil_div n l =
     (if l = 0 then (if n = 0 then NaN else Infinity)
      else Finite \<lceil>real n / real_of_int l\<rceil>)"

text \<open>
  The filter of the list query: the owner, the equality filters that are truthy, and
  the date range when both bounds are truthy.
\<close>

definition buildQuery :: "externals \<Rightarrow> objectId \<Rightarrow> query \<Rightarrow> query_filter" where
  "buildQuery X userId q =
     [UserIs userId]
     @ (case param q ''category'' of
          None \<Rightarrow> [] | Some c \<Rightarrow> if c \<noteq> [] then [CategoryIs c] else [])
     @ (case param q ''paymentMethod'' of
          None \<Rightarrow> [] | Some p \<Rightarrow> if p \<noteq> [] then [PaymentMethodIs p] else [])
     @ (case (param q ''startDate'', param q ''endDate'') of
          (Some s, Some e) \<Rightarrow>
            if s \<noteq> [] \<and> e \<noteq> [] then [DateBetween (Date_parse X s) (Date_parse X e)] else []
        | _ \<Rightarrow> [])"

text \<open>
  \<^verbatim>\<open>limit(0)\<close> is no limit; a negative limit is the limit of its absolute value.
\<close>

definition apply_limit :: "int \<Rightarrow> 'a list \<Rightarrow> 'a list" where
  "apply_limit l xs = (if l = 0 then xs else take (nat \<bar>l\<bar>) xs)"

text \<open>
  \<^verbatim>\<open>Expense.find(query).sort({ date: -1 }).skip(skip).limit(limit)\<close>. The sort is
  stable on the natural order; the server refuses a negative skip.
\<close>

definition Expense_find :: "store \<Rightarrow> query_filter \<Rightarrow> int \<Rightarrow> int \<Rightarrow> error + expense list" where
  "Expense_find st q skip limit =
     (case store_guard st q of
        Some err \<Rightarrow> Inl err
      | None \<Rightarrow>
          if skip < 0 then Inl (MongoServerError ''BadValue'' ''skip'')
          else Inr (apply_limit limit
                 (drop (nat skip) (sort_key (\<lambda>e. - date e) (filter (matches q) (docs st))))))"

definition Expense_countDocuments :: "store \<Rightarrow> query_filter \<Rightarrow> error + nat" where
  "Expense_countDocuments st q =
     (case store_guard st q of
        Some err \<Rightarrow> Inl err
      | None \<Rightarrow> Inr (length (filter (matches q) (docs st))))"

text \<open>
  The composed result. \<open>page\<close> is the query value as it came: \<open>None\<close> is the default,
  the number 1.
\<close>

record page_result =
  expenses :: "expense list"
  total :: nat
  page :: "string option"
  totalPages :: jsnum

text \<open>The part of \<^verbatim>\<open>getExpenses\<close> between the cache lookup and the cache write.\<close>

definition queryStore :: "externals \<Rightarrow> store \<Rightarrow> objectId \<Rightarrow> query \<Rightarrow> error + page_result" where
  "queryStore X st userId q =
     (case (num_param q ''page'' 1, num_param q ''limit'' 10) of
        (Some p, Some l) \<Rightarrow>
          (case Expense_find st (buildQuery X userId q) ((p - 1) * l) l of
             Inl err \<Rightarrow> Inl err
           | Inr found \<Rightarrow>
               (case Expense_countDocuments st (buildQuery X userId q) of
                  Inl err \<Rightarrow> Inl err
                | Inr n \<Rightarrow>
                    Inr \<lparr> expenses = found, total = n, page = param q ''page'',
                          totalPages = Math_ceil_div n l \<rparr>))
      | _ \<Rightarrow> Inl (OutsideModel ''page or limit is not an integer literal''))"

text \<open>The documents of the collection that the filter of a list query selects.\<close>

definition matching :: "externals \<Rightarrow> store \<Rightarrow> objectId \<Rightarrow> query \<Rightarrow> expense list" where
  "matching X st userId q = filter (matches (buildQuery X userId q)) (docs st)"

text \<open>The JSON value of the composed result, and \<^verbatim>\<open>JSON.stringify(result)\<close>.\<close>

definition result_json :: "externals \<Rightarrow> page_result \<Rightarrow> json" where
  "result_json X r =
     JObject
       [(''expenses'', JArray (map (doc_toJSON X) (expenses r))),
        (''total'', JNumber (show_nat (total r))),
        (''page'', (case page r of None \<Rightarrow> JNumber ''1'' | Some s \<Rightarrow> JString s)),
        (''totalPages'', (case totalPages r of Finite i \<Rightarrow> JNumber (show_int i) | _ \<Rightarrow> JNull))]"

definition JSON_stringify_result :: "externals \<Rightarrow> page_result \<Rightarrow> string" where
  "JSON_stringify_result X r = JSON_stringify (result_json X r)"

text \<open>
  The \<open>data\<close> of the list response: the composed result on the store path, the value
  parsed from the cached text on the cache path. \<open>payload\<close> is the JSON value that
  \<^verbatim>\<open>res.json\<close> writes for it.
\<close>

datatype list_data = Fresh page_result | Cached json

fun payload :: "externals \<Rightarrow> list_data \<Rightarrow> json" where
  "payload X (Fresh r) = result_json X r"
| "payload X (Cached j) = j"

definition getExpenses ::
  "externals \<Rightarrow> redis \<Rightarrow> store \<Rightarrow> nat \<Rightarrow> objectId \<Rightarrow> query
     \<Rightarrow> (error + list_data response) \<times> redis" where
  "getExpenses X rc st now userId q =
     (case redisClient_get rc now (cacheKey userId q) of
        Inl err \<Rightarrow> (Inl err, rc)
      | Inr cachedResult \<Rightarrow>
          (case cachedResult of
             Some (c # cs) \<Rightarrow>
               (case JSON_parse (c # cs) of
                  None \<Rightarrow> (Inl (OutsideModel ''cached text not written by JSON.stringify''), rc)
                | Some j \<Rightarrow>
                    (Inr (200, ApiResponse 200 (Cached j) ''Expenses retrieved from cache''), rc))
           | _ \<Rightarrow>
               (case queryStore X st userId q of
                  Inl err \<Rightarrow> (Inl err, rc)
                | Inr result \<Rightarrow>
                    (case redisClient_setEx rc now (cacheKey userId q) 300
                            (JSON_stringify_result X result) of
                       Inl err \<Rightarrow> (Inl err, rc)
                     | Inr rc' \<Rightarrow>
                         (Inr (200, ApiResponse 200 (Fresh result)
                                 ''Expenses retrieved successfully''), rc')))))"

text \<open>
  What the entries of the cache hold when only \<^verbatim>\<open>getExpenses\<close> writes them: under a
  key of an owner, the text of a result that holds documents of that owner only. Owner
  ids are hexadecimal texts, so they hold no colon.
\<close>

definition cache_scoped :: "externals \<Rightarrow> redis \<Rightarrow> bool" where
  "cache_scoped X rc \<longleftrightarrow>
     (\<forall>u q v t. CHR '':'' \<notin> set u \<longrightarrow> entries rc (cacheKey u q) = Some (v, t) \<longrightarrow>
        (\<exists>r. v = JSON_stringify_result X r \<and> list_all (\<lambda>e. user e = u) (expenses r)))"

subsection \<open>Statistics\<close>

text \<open>The documents exchanged with the aggregation engine.\<close>

datatype bson =
    BNull
  | BNum int
  | BStr string
  | BDate "int option"
  | BObjectId objectId
  | BArr "bson list"
  | BDoc "(string \<times> bson) list"

definition bdoc_get :: "bson \<Rightarrow> string \<Rightarrow> bson option" where
  "bdoc_get d k = (case d of BDoc fs \<Rightarrow> map_of fs k | _ \<Rightarrow> None)"

text \<open>\<^verbatim>\<open>a || b\<close> on an optional string.\<close>

definition or_else :: "string option \<Rightarrow> 'a \<Rightarrow> (string \<Rightarrow> 'a) \<Rightarrow> 'a" where
  "or_else s dflt f = (case s of Some (c # cs) \<Rightarrow> f (c # cs) | _ \<Rightarrow> dflt)"

definition matchStage :: "externals \<Rightarrow> int \<Rightarrow> objectId \<Rightarrow> query \<Rightarrow> bson" where
  "matchStage X now userId q =
     BDoc [(''user'', BObjectId userId),
           (''date'', BDoc
              [(''$gte'', BDate (Date_parse X (or_else (param q ''startDate'') ''1970-01-01'' (\<lambda>s. s)))),
               (''$lte'', BDate (or_else (param q ''endDate'') (Some now) (Date_parse X)))])]"

text \<open>The pipeline of \<^verbatim>\<open>getExpenseStatistics\<close>, as the object literal of the source.\<close>

definition statisticsPipeline :: "bson \<Rightarrow> bson list" where
  "statisticsPipeline m =
    [BDoc [(''$match'', m)],
     BDoc [(''$group'', BDoc
       [(''_id'', BNull),
        (''totalExpenses'', BDoc [(''$sum'', BStr ''$amount'')]),
        (''averageExpense'', BDoc [(''$avg'', BStr ''$amount'')]),
        (''expensesByCategory'', BDoc [(''$push'', BDoc
           [(''category'', BStr ''$category''), (''amount'', BStr ''$amount'')])]),
        (''expensesByMonth'', BDoc [(''$push'', BDoc
           [(''month'', BDoc [(''$month'', BStr ''$date'')]),
            (''year'', BDoc [(''$year'', BStr ''$date'')]),
            (''amount'', BStr ''$amount'')])])])],
     BDoc [(''$project'', BDoc
       [(''_id'', BNum 0),
        (''totalExpenses'', BNum 1),
        (''averageExpense'', BNum 1),
        (''expensesByCategory'', BDoc [(''$reduce'', BDoc
           [(''input'', BStr ''$expensesByCategory''),
            (''initialValue'', BDoc []),
            (''in'', BDoc [(''$mergeObjects'', BArr
               [BStr ''$$value'',
                BDoc [(''$$this.category'', BDoc [(''$sum'', BArr
                   [BStr ''$$value.$$this.category'', BStr ''$$this.amount''])])]])])])]),
        (''expensesByMonth'', BDoc [(''$reduce'', BDoc
           [(''input'', BStr ''$expensesByMonth''),
            (''initialValue'', BDoc []),
            (''in'', BDoc [(''$mergeObjects'', BArr
               [BStr ''$$value'',
                BDoc [(''$let'', BDoc
                   [(''vars'', BDoc [(''monthYear'', BDoc [(''$concat'', BArr
                       [BDoc [(''$toString'', BStr ''$$this.year'')],
                        BStr ''-'',
                        BDoc [(''$toString'', BStr ''$$this.month'')]])])]),
                    (''in'', BDoc [(''$mergeObjects'', BArr
                       [BStr ''$$value'',
                        BDoc [(''$$monthYear'', BDoc [(''$sum'', BArr
                           [BDoc [(''$ifNull'', BArr [BStr ''$$value.$$monthYear'', BNum 0])],
                            BStr ''$$this.amount''])])]])])])]])])])])])]]"

text \<open>
  The category pipeline of \<^verbatim>\<open>getExpenseSummary\<close>, the other aggregation of the controller
  that sums per category: it groups on the field, with \<^verbatim>\<open>_id: "$category"\<close>.
\<close>

definition summaryCategoriesPipeline :: "objectId \<Rightarrow> bson list" where
  "summaryCategoriesPipeline userId =
    [BDoc [(''$match'', BDoc [(''user'', BObjectId userId)])],
     BDoc [(''$group'', BDoc
       [(''_id'', BStr ''$category''), (''total'', BDoc [(''$sum'', BStr ''$amount'')])])],
     BDoc [(''$sort'', BDoc [(''total'', BNum (- 1))])],
     BDoc [(''$limit'', BNum 3)],
     BDoc [(''$project'', BDoc [(''_id'', BNum 0), (''name'', BStr ''$_id''), (''total'', BNum 1)])]]"

text \<open>
  How the engine reads an object in expression position: when the name of its first
  field starts with a dollar sign, the object is the application of the operator of
  that name, and a name that is no operator is refused. Every operator name is a dollar
  sign followed by letters and digits; the keys of an object are never evaluated. The
  argument of \<^verbatim>\<open>$literal\<close> is not parsed.
\<close>

definition operator_shaped :: "string \<Rightarrow> bool" where
  "operator_shaped k =
     (case k of
        [] \<Rightarrow> False
      | c # cs \<Rightarrow> c = CHR ''$'' \<and> cs \<noteq> []
          \<and> list_all (\<lambda>x. x \<in> set ''abcdefghijklmnopqrstuvwxyzABCDEFGHIJKLMNOPQRSTUVWXYZ0123456789'') cs)"

definition unrecognized :: "string \<Rightarrow> error" where
  "unrecognized k = MongoServerError ''InvalidPipelineOperator'' k"

fun parseOperand :: "bson \<Rightarrow> error option"
  and parseOperands :: "bson list \<Rightarrow> error option"
  and parseValues :: "(string \<times> bson) list \<Rightarrow> error option" where
  "parseOperand (BArr xs) = parseOperands xs"
| "parseOperand (BDoc []) = None"
| "parseOperand (BDoc ((k, v) # fs)) =
     (if take 1 k = ''$'' then
        (if \<not> operator_shaped k then Some (unrecognized k)
         else if k = ''$literal'' \<or> k = ''$const'' then None
         else parseOperand v)
      else (case parseOperand v of Some err \<Rightarrow> Some err | None \<Rightarrow> parseValues fs))"
| "parseOperand _ = None"
| "parseOperands [] = None"
| "parseOperands (x # xs) =
     (case parseOperand x of Some err \<Rightarrow> Some err | None \<Rightarrow> parseOperands xs)"
| "parseValues [] = None"
| "parseValues ((k, v) # fs) =
     (case parseOperand v of Some err \<Rightarrow> Some err | None \<Rightarrow> parseValues fs)"

text \<open>
  The stages whose fields hold expressions are parsed when the pipeline arrives, before
  any document is read. What this check lets through is left to \<open>exec\<close>, the engine's
  execution of the pipeline, which is not part of the sources.
\<close>

fun parseStage :: "bson \<Rightarrow> error option" where
  "parseStage (BDoc [(name, spec)]) =
     (if name = ''$group'' \<or> name = ''$project''
      then (case spec of BDoc fs \<Rightarrow> parseValues fs | _ \<Rightarrow> None)
      else None)"
| "parseStage _ = None"

fun parsePipeline :: "bson list \<Rightarrow> error option" where
  "parsePipeline [] = None"
| "parsePipeline (s # ss) =
     (case parseStage s of Some err \<Rightarrow> Some err | None \<Rightarrow> parsePipeline ss)"

definition Expense_aggregate ::
  "(bson list \<Rightarrow> expense list \<Rightarrow> error + bson list) \<Rightarrow> store \<Rightarrow> bson list \<Rightarrow> error + bson list" where
  "Expense_aggregate exec st pipeline =
     (if \<not> reachable st then Inl StoreUnavailable
      else (case parsePipeline pipeline of
              Some err \<Rightarrow> Inl err
            | None \<Rightarrow> exec pipeline (docs st)))"

text \<open>JavaScript truthiness of a document value.\<close>

fun truthy :: "bson \<Rightarrow> bool" where
  "truthy BNull = False"
| "truthy (BNum n) = (n \<noteq> 0)"
| "truthy (BStr s) = (s \<noteq> [])"
| "truthy _ = True"

text \<open>\<^verbatim>\<open>statistics[0] || {}\<close>.\<close>

definition first_or_empty :: "bson list \<Rightarrow> bson" where
  "first_or_empty statistics =
     (case statistics of [] \<Rightarrow> BDoc [] | d # _ \<Rightarrow> if truthy d then d else BDoc [])"

definition statisticsResponse :: "bson list \<Rightarrow> bson response" where
  "statisticsResponse statistics =
     (200, ApiResponse 200 (first_or_empty statistics) ''Expense statistics retrieved successfully'')"

definition getExpenseStatistics ::
  "(bson list \<Rightarrow> expense list \<Rightarrow> error + bson list) \<Rightarrow> externals \<Rightarrow> store \<Rightarrow> int \<Rightarrow> objectId
     \<Rightarrow> query \<Rightarrow> error + bson response" where
  "getExpenseStatistics exec X st now userId q =
     (case Expense_aggregate exec st (statisticsPipeline (matchStage X now userId q)) of
        Inl err \<Rightarrow> Inl err
      | Inr statistics \<Rightarrow> Inr (statisticsResponse statistics))"

subsection \<open>Example data\<close>

definition ex1 :: expense where
  "ex1 = \<lparr>eid = ''650000000000000000000001'', user = ''alice'', amount = 10, description = ''lunch'',
          date = 1704067200000, category = ''food'', paymentMethod = ''cash''\<rparr>"

definition ex2 :: expense where
  "ex2 = \<lparr>eid = ''650000000000000000000002'', user = ''bob'', amount = 20, description = ''taxi'',
          date = 1704153600000, category = ''travel'', paymentMethod = ''card''\<rparr>"

definition ex_food20 :: expense where
  "ex_food20 = ex1\<lparr>eid := ''650000000000000000000003'', amount := 20, date := 1704672000000\<rparr>"

definition ex_food30 :: expense where
  "ex_food30 = ex1\<lparr>eid := ''650000000000000000000004'', amount := 30, date := 1706140800000\<rparr>"

definition docs25 :: "expense list" where
  "docs25 = map (\<lambda>i. ex1\<lparr>eid := show_nat i, date := int i\<rparr>) [0..<25]"

definition sorted25 :: "expense list" where
  "sorted25 = sort_key (\<lambda>e. - date e) docs25"

definition r_limit_zero :: page_result where
  "r_limit_zero = \<lparr>expenses = sorted25, total = 25, page = None, totalPages = Infinity\<rparr>"

definition X0 :: externals where
  "X0 = \<lparr>Date_parse = (\<lambda>s. if s = ''1970-01-01'' then Some 0 else None),
          doc_toJSON = (\<lambda>e. JObject [(''_id'', JString (eid e)), (''user'', JString (user e))])\<rparr>"

definition b_full :: body where
  "b_full = \<lparr>b_amount = Some 5, b_description = Some ''x'', b_date = Some 0,
             b_category = Some ''c'', b_paymentMethod = Some ''p''\<rparr>"

definition b_amount_only :: body where
  "b_amount_only = \<lparr>b_amount = Some 5, b_description = None, b_date = None,
                    b_category = None, b_paymentMethod = None\<rparr>"

definition rc0 :: redis where
  "rc0 = \<lparr>entries = (\<lambda>k. None), get_ok = True, set_ok = True\<rparr>"

definition q_page_limit :: query where
  "q_page_limit = [(''page'', ''1''), (''limit'', ''10'')]"

definition q_limit_page :: query where
  "q_limit_page = [(''limit'', ''10''), (''page'', ''1'')]"

definition q_food :: query where
  "q_food = [(''category'', ''food'')]"

definition r_food :: page_result where
  "r_food = \<lparr>expenses = [ex1], total = 1, page = None, totalPages = Finite 1\<rparr>"

section \<open>Properties\<close>

subsection \<open>Single-record operations and bulk delete\<close>


lemma update_first_none:
  "\<forall>e\<in>set ds. \<not> matches q e \<Longrightarrow> update_first q b ds = (None, ds)"
  by (induction ds) auto

lemma delete_first_none:
  "\<forall>e\<in>set ds. \<not> matches q e \<Longrightarrow> delete_first q ds = (None, ds)"
  by (induction ds) auto

lemma matches_id_user:
  "matches [IdIs i, UserIs u] e \<longleftrightarrow> eid e = castObjectId i \<and> user e = u"
  by (simp add: matches_def)

lemma matches_in_user:
  "matches [IdIn is, UserIs u] e \<longleftrightarrow> eid e \<in> set (map castObjectId is) \<and> user e = u"
  by (simp add: matches_def)

lemma update_first_hit:
  "distinct (map eid ds) \<Longrightarrow> e \<in> set ds \<Longrightarrow> eid e = castObjectId i \<Longrightarrow> user e = u \<Longrightarrow>
   update_first [IdIs i, UserIs u] b ds =
     (Some (apply_update b e),
      map (\<lambda>x. if eid x = castObjectId i then apply_update b x else x) ds)"
proof (induction ds)
  case Nil
  then show ?case by simp
next
  case (Cons d ds)
  show ?case
  proof (cases "d = e")
    case True
    with Cons.prems have "\<forall>x\<in>set ds. eid x \<noteq> castObjectId i" by (auto simp: image_iff)
    then have "map (\<lambda>x. if eid x = castObjectId i then apply_update b x else x) ds = ds"
      by (simp add: map_idI)
    with True Cons.prems show ?thesis by (simp add: matches_id_user)
  next
    case False
    with Cons.prems have in_tl: "e \<in> set ds" by auto
    from Cons.prems(1) have "eid d \<notin> eid ` set ds" by simp
    moreover from in_tl have "eid e \<in> eid ` set ds" by (rule imageI)
    ultimately have "eid d \<noteq> eid e" by auto
    with Cons.prems(3) have ne: "eid d \<noteq> castObjectId i" by simp
    from Cons.IH [OF _ in_tl Cons.prems(3,4)] Cons.prems(1) ne show ?thesis
      by (simp add: matches_id_user)
  qed
qed

lemma delete_first_hit:
  "distinct (map eid ds) \<Longrightarrow> e \<in> set ds \<Longrightarrow> eid e = castObjectId i \<Longrightarrow> user e = u \<Longrightarrow>
   delete_first [IdIs i, UserIs u] ds = (Some e, filter (\<lambda>x. eid x \<noteq> castObjectId i) ds)"
proof (induction ds)
  case Nil
  then show ?case by simp
next
  case (Cons d ds)
  show ?case
  proof (cases "d = e")
    case True
    with Cons.prems have "\<forall>x\<in>set ds. eid x \<noteq> castObjectId i" by (auto simp: image_iff)
    then have "filter (\<lambda>x. eid x \<noteq> castObjectId i) ds = ds" by simp
    with True Cons.prems show ?thesis by (simp add: matches_id_user)
  next
    case False
    with Cons.prems have in_tl: "e \<in> set ds" by auto
    from Cons.prems(1) have "eid d \<notin> eid ` set ds" by simp
    moreover from in_tl have "eid e \<in> eid ` set ds" by (rule imageI)
    ultimately have "eid d \<noteq> eid e" by auto
    with Cons.prems(3) have ne: "eid d \<noteq> castObjectId i" by simp
    from Cons.IH [OF _ in_tl Cons.prems(3,4)] Cons.prems(1) ne show ?thesis
      by (simp add: matches_id_user)
  qed
qed

lemma store_guard_ids:
  "reachable st \<Longrightarrow> valid_id i \<Longrightarrow> store_guard st [IdIs i, UserIs u] = None"
  by (simp add: store_guard_def valid_id_def)

lemma store_guard_ill_id:
  "reachable st \<Longrightarrow> \<not> valid_id i \<Longrightarrow> length i \<noteq> 12 \<Longrightarrow>
   store_guard st [IdIs i, UserIs u] = Some (CastError ''_id'')"
  by (simp add: store_guard_def cast_path_def)



lemma buildQuery_modelled [simp]: "\<not> list_ex unmodelled (buildQuery X userId q)"
  by (simp add: buildQuery_def split: option.splits)

text \<open>
  Claim C10. An add request whose amount is 0, with the four other fields present and
  non-empty, is rejected with the client error 400 and creates no record: the store is
  unchanged and \<open>create\<close> is not consulted. A missing amount is treated alike, and any
  non-zero amount reaches \<open>create\<close>.
\<close>

theorem addExpense_zero_amount_rejected:
  assumes "b_amount b = Some 0"
    and "truthy_str (b_description b)" and "truthy_date (b_date b)"
    and "truthy_str (b_category b)" and "truthy_str (b_paymentMethod b)"
  shows "addExpense create st userId b = (Inl (ApiError 400 ''All fields are required''), st)
       \<and> addExpense create st userId (b\<lparr>b_amount := None\<rparr>) = addExpense create st userId b
       \<and> (\<forall>a. a \<noteq> 0 \<longrightarrow> addExpense create st userId (b\<lparr>b_amount := Some a\<rparr>) =
            (case create st userId (b\<lparr>b_amount := Some a\<rparr>) of
               Inl err \<Rightarrow> (Inl err, st)
             | Inr (expense, st') \<Rightarrow>
                 (Inr (201, ApiResponse 201 expense ''Expense added successfully''), st')))"
  using assms by (simp add: addExpense_def truthy_num_def)

text \<open>
  Claim C8 as stated fails. For the id \<^verbatim>\<open>e2\<close>, which is no ObjectId text, the filter
  cannot be cast: update and delete answer with a cast error, not with 404. And an
  update whose body gives the amount alone answers 200 and replaces the amount alone.
\<close>

theorem updateExpense_counterexample:
  "updateExpense \<lparr>docs = [ex1, ex2], reachable = True\<rparr> ''alice'' ''e2'' b_full
     = (Inl (CastError ''_id''), \<lparr>docs = [ex1, ex2], reachable = True\<rparr>)
   \<and> deleteExpense \<lparr>docs = [ex1, ex2], reachable = True\<rparr> ''alice'' ''e2''
     = (Inl (CastError ''_id''), \<lparr>docs = [ex1, ex2], reachable = True\<rparr>)
   \<and> updateExpense \<lparr>docs = [ex1, ex2], reachable = True\<rparr> ''alice''
        ''650000000000000000000001'' b_amount_only
     = (Inr (200, ApiResponse 200 (ex1\<lparr>amount := 5\<rparr>) ''Expense updated successfully''),
        \<lparr>docs = [ex1\<lparr>amount := 5\<rparr>, ex2], reachable = True\<rparr>)
   \<and> description (ex1\<lparr>amount := 5\<rparr>) = ''lunch''"
  by (simp add: updateExpense_def deleteExpense_def Expense_findOneAndUpdate_def
      Expense_findOneAndDelete_def store_guard_def cast_path_def valid_id_def matches_def
      castObjectId_def lower_hex_def apply_update_def b_full_def b_amount_only_def ex1_def ex2_def)

text \<open>
  Claim C8, amended. On a reachable store, for an id that is an ObjectId text (24
  hexadecimal digits): update and delete answer 404 and leave the store unchanged when
  no document has that id under the caller's ownership (also when the id belongs to
  another owner). When a document matches, update replaces it by the updated document,
  which takes from the body the data fields that the body gives (all five when the body
  gives all five) and keeps the others, the id and the owner; delete removes the
  document. For an id text that is neither an ObjectId text nor of 12 characters,
  update and delete fail with a cast error and leave the store unchanged.
\<close>

theorem updateExpense_deleteExpense_by_id:
  assumes up: "reachable st"
  shows "(\<not> valid_id i \<and> length i \<noteq> 12 \<longrightarrow>
            updateExpense st u i b = (Inl (CastError ''_id''), st)
          \<and> deleteExpense st u i = (Inl (CastError ''_id''), st))
       \<and> (valid_id i \<and> \<not> (\<exists>e\<in>set (docs st). eid e = castObjectId i \<and> user e = u) \<longrightarrow>
            updateExpense st u i b = (Inl (ApiError 404 ''Expense not found''), st)
          \<and> deleteExpense st u i = (Inl (ApiError 404 ''Expense not found''), st))
       \<and> (valid_id i \<and> distinct (map eid (docs st)) \<and> e \<in> set (docs st)
            \<and> eid e = castObjectId i \<and> user e = u \<longrightarrow>
            updateExpense st u i b =
              (Inr (200, ApiResponse 200 (apply_update b e) ''Expense updated successfully''),
               st\<lparr>docs := map (\<lambda>x. if eid x = castObjectId i then apply_update b x else x) (docs st)\<rparr>)
          \<and> apply_update b e =
              \<lparr>eid = eid e, user = user e,
               amount = (case b_amount b of None \<Rightarrow> amount e | Some a \<Rightarrow> a),
               description = (case b_description b of None \<Rightarrow> description e | Some d \<Rightarrow> d),
               date = (case b_date b of None \<Rightarrow> date e | Some t \<Rightarrow> t),
               category = (case b_category b of None \<Rightarrow> category e | Some c \<Rightarrow> c),
               paymentMethod = (case b_paymentMethod b of None \<Rightarrow> paymentMethod e | Some p \<Rightarrow> p)\<rparr>
          \<and> (b = \<lparr>b_amount = Some a, b_description = Some d, b_date = Some t,
                   b_category = Some c, b_paymentMethod = Some p\<rparr> \<longrightarrow>
               apply_update b e = \<lparr>eid = castObjectId i, user = u, amount = a, description = d,
                                    date = t, category = c, paymentMethod = p\<rparr>)
          \<and> deleteExpense st u i =
              (Inr (200, ApiResponse 200 () ''Expense deleted successfully''),
               st\<lparr>docs := filter (\<lambda>x. eid x \<noteq> castObjectId i) (docs st)\<rparr>))"
proof (intro conjI impI)
  assume ill: "\<not> valid_id i \<and> length i \<noteq> 12"
  show "updateExpense st u i b = (Inl (CastError ''_id''), st)"
    using up ill by (simp add: updateExpense_def Expense_findOneAndUpdate_def store_guard_ill_id)
  show "deleteExpense st u i = (Inl (CastError ''_id''), st)"
    using up ill by (simp add: deleteExpense_def Expense_findOneAndDelete_def store_guard_ill_id)
next
  assume none: "valid_id i \<and> \<not> (\<exists>e\<in>set (docs st). eid e = castObjectId i \<and> user e = u)"
  then have nm: "\<forall>e\<in>set (docs st). \<not> matches [IdIs i, UserIs u] e"
    by (simp add: matches_id_user)
  show "updateExpense st u i b = (Inl (ApiError 404 ''Expense not found''), st)"
    using up none by (simp add: updateExpense_def Expense_findOneAndUpdate_def store_guard_ids
        update_first_none [OF nm])
  show "deleteExpense st u i = (Inl (ApiError 404 ''Expense not found''), st)"
    using up none by (simp add: deleteExpense_def Expense_findOneAndDelete_def store_guard_ids
        delete_first_none [OF nm])
next
  assume h: "valid_id i \<and> distinct (map eid (docs st)) \<and> e \<in> set (docs st)
            \<and> eid e = castObjectId i \<and> user e = u"
  show "updateExpense st u i b =
      (Inr (200, ApiResponse 200 (apply_update b e) ''Expense updated successfully''),
       st\<lparr>docs := map (\<lambda>x. if eid x = castObjectId i then apply_update b x else x) (docs st)\<rparr>)"
    using up h by (simp add: updateExpense_def Expense_findOneAndUpdate_def store_guard_ids
        update_first_hit [where e = e])
  show "deleteExpense st u i =
      (Inr (200, ApiResponse 200 () ''Expense deleted successfully''),
       st\<lparr>docs := filter (\<lambda>x. eid x \<noteq> castObjectId i) (docs st)\<rparr>)"
    using up h by (simp add: deleteExpense_def Expense_findOneAndDelete_def store_guard_ids
        delete_first_hit [where e = e])
  show "apply_update b e =
              \<lparr>eid = eid e, user = user e,
               amount = (case b_amount b of None \<Rightarrow> amount e | Some a \<Rightarrow> a),
               description = (case b_description b of None \<Rightarrow> description e | Some d \<Rightarrow> d),
               date = (case b_date b of None \<Rightarrow> date e | Some t \<Rightarrow> t),
               category = (case b_category b of None \<Rightarrow> category e | Some c \<Rightarrow> c),
               paymentMethod = (case b_paymentMethod b of None \<Rightarrow> paymentMethod e | Some p \<Rightarrow> p)\<rparr>"
    by (simp add: apply_update_def)
next
  assume h: "valid_id i \<and> distinct (map eid (docs st)) \<and> e \<in> set (docs st)
            \<and> eid e = castObjectId i \<and> user e = u"
    and full: "b = \<lparr>b_amount = Some a, b_description = Some d, b_date = Some t,
                   b_category = Some c, b_paymentMethod = Some p\<rparr>"
  show "apply_update b e = \<lparr>eid = castObjectId i, user = u, amount = a, description = d,
                                    date = t, category = c, paymentMethod = p\<rparr>"
    using h full by (simp add: apply_update_def)
qed





theorem addExpense_zero_amount_witness:
  "addExpense (\<lambda>st u b. Inl StoreUnavailable) \<lparr>docs = [], reachable = True\<rparr> ''alice''
      \<lparr>b_amount = Some 0, b_description = Some ''lunch'', b_date = Some 1704067200000,
       b_category = Some ''food'', b_paymentMethod = Some ''cash''\<rparr>
     = (Inl (ApiError 400 ''All fields are required''), \<lparr>docs = [], reachable = True\<rparr>)"
  using addExpense_zero_amount_rejected
          [of "\<lparr>b_amount = Some 0, b_description = Some ''lunch'', b_date = Some 1704067200000,
                b_category = Some ''food'', b_paymentMethod = Some ''cash''\<rparr>"
              "\<lambda>st u b. Inl StoreUnavailable" "\<lparr>docs = [], reachable = True\<rparr>" "''alice''"]
  by (simp add: truthy_str_def truthy_date_def)

theorem updateExpense_deleteExpense_witness:
  "updateExpense \<lparr>docs = [ex1, ex2], reachable = True\<rparr> ''alice''
      ''650000000000000000000002'' b_full
     = (Inl (ApiError 404 ''Expense not found''), \<lparr>docs = [ex1, ex2], reachable = True\<rparr>)
   \<and> deleteExpense \<lparr>docs = [ex1, ex2], reachable = True\<rparr> ''alice'' ''650000000000000000000002''
     = (Inl (ApiError 404 ''Expense not found''), \<lparr>docs = [ex1, ex2], reachable = True\<rparr>)
   \<and> updateExpense \<lparr>docs = [ex1, ex2], reachable = True\<rparr> ''alice''
      ''650000000000000000000001'' b_full
     = (Inr (200, ApiResponse 200
           \<lparr>eid = ''650000000000000000000001'', user = ''alice'', amount = 5, description = ''x'',
            date = 0, category = ''c'', paymentMethod = ''p''\<rparr> ''Expense updated successfully''),
        \<lparr>docs = [\<lparr>eid = ''650000000000000000000001'', user = ''alice'', amount = 5,
            description = ''x'', date = 0, category = ''c'', paymentMethod = ''p''\<rparr>, ex2],
         reachable = True\<rparr>)
   \<and> deleteExpense \<lparr>docs = [ex1, ex2], reachable = True\<rparr> ''alice'' ''650000000000000000000001''
     = (Inr (200, ApiResponse 200 () ''Expense deleted successfully''),
        \<lparr>docs = [ex2], reachable = True\<rparr>)
   \<and> deleteExpense \<lparr>docs = [ex1, ex2], reachable = True\<rparr> ''alice'' ''e2''
     = (Inl (CastError ''_id''), \<lparr>docs = [ex1, ex2], reachable = True\<rparr>)"
  using updateExpense_deleteExpense_by_id
          [where st = "\<lparr>docs = [ex1, ex2], reachable = True\<rparr>" and i = "''650000000000000000000002''"
             and u = "''alice''" and b = b_full]
        updateExpense_deleteExpense_by_id
          [where st = "\<lparr>docs = [ex1, ex2], reachable = True\<rparr>" and i = "''650000000000000000000001''"
             and u = "''alice''" and b = b_full and e = ex1
             and a = 5 and d = "''x''" and t = 0 and c = "''c''" and p = "''p''"]
        updateExpense_deleteExpense_by_id
          [where st = "\<lparr>docs = [ex1, ex2], reachable = True\<rparr>" and i = "''e2''"
             and u = "''alice''" and b = b_full]
  by (simp add: ex1_def ex2_def b_full_def valid_id_def castObjectId_def lower_hex_def)

subsection \<open>The cache key\<close>

text \<open>The escape of a character is a prefix code, so the text of a query determines the query.\<close>


lemma hex_digit_inj: "d < 16 \<Longrightarrow> d' < 16 \<Longrightarrow> hex_digit d = hex_digit d' \<Longrightarrow> d = d'"
proof -
  assume a: "d < 16" "d' < 16" "hex_digit d = hex_digit d'"
  have dist: "distinct ''0123456789abcdef''" by simp
  have len: "length ''0123456789abcdef'' = 16" by simp
  from a show ?thesis
    unfolding hex_digit_def using nth_eq_iff_index_eq [OF dist, of d d'] len by simp
qed

lemma hex_pair_inj:
  fixes n m :: nat
  assumes "n < 32" "m < 32"
    and "hex_digit (n div 16) = hex_digit (m div 16)"
    and "hex_digit (n mod 16) = hex_digit (m mod 16)"
  shows "n = m"
proof -
  from assms have "n div 16 = m div 16" by (intro hex_digit_inj) auto
  moreover from assms have "n mod 16 = m mod 16" by (intro hex_digit_inj) auto
  ultimately show ?thesis by (metis div_mult_mod_eq)
qed

lemma escape_plain:
  "escape_char c @ x = a # r \<Longrightarrow> a \<noteq> CHR 0x5C \<Longrightarrow> c = a \<and> x = r"
  by (simp add: escape_char_def split: if_splits)

lemma escape_back:
  "escape_char c @ x = CHR 0x5C # r \<Longrightarrow> \<exists>b r2. r = b # r2"
  by (auto simp: escape_char_def split: if_splits)

lemma escape_short:
  "escape_char c @ x = CHR 0x5C # b # r \<Longrightarrow> b \<noteq> CHR ''u'' \<Longrightarrow>
     x = r \<and> c = (if b = CHR 0x22 then CHR 0x22 else if b = CHR 0x5C then CHR 0x5C
                  else if b = CHR ''b'' then CHR 0x08 else if b = CHR ''t'' then CHR 0x09
                  else if b = CHR ''n'' then CHR 0x0A else if b = CHR ''f'' then CHR 0x0C
                  else CHR 0x0D)"
  by (auto simp: escape_char_def split: if_splits)

lemma escape_unicode:
  "escape_char c @ x = CHR 0x5C # CHR ''u'' # r \<Longrightarrow>
     r = CHR ''0'' # CHR ''0'' # hex_digit (of_char c div 16) # hex_digit (of_char c mod 16) # x
     \<and> (of_char c :: nat) < 32"
  by (simp add: escape_char_def split: if_splits)

lemma escape_char_prefix:
  assumes eq: "escape_char c @ x = escape_char c' @ y"
  shows "c = c' \<and> x = y"
proof -
  obtain a r where s: "escape_char c @ x = a # r"
    by (cases "escape_char c @ x") (simp_all add: escape_char_def split: if_splits)
  with eq have s': "escape_char c' @ y = a # r" by simp
  show ?thesis
  proof (cases "a = CHR 0x5C")
    case False
    from escape_plain [OF s False] escape_plain [OF s' False] show ?thesis by simp
  next
    case True
    with s escape_back obtain b r2 where r: "r = b # r2" by blast
    show ?thesis
    proof (cases "b = CHR ''u''")
      case False
      from s s' True r have "escape_char c @ x = CHR 0x5C # b # r2"
        "escape_char c' @ y = CHR 0x5C # b # r2" by simp_all
      from escape_short [OF this(1) False] escape_short [OF this(2) False]
      show ?thesis by simp
    next
      case u: True
      from s s' True r u have "escape_char c @ x = CHR 0x5C # CHR ''u'' # r2"
        "escape_char c' @ y = CHR 0x5C # CHR ''u'' # r2" by simp_all
      from escape_unicode [OF this(1)] escape_unicode [OF this(2)]
      have "hex_digit (of_char c div 16) = hex_digit (of_char c' div 16)"
        "hex_digit (of_char c mod 16) = hex_digit (of_char c' mod 16)"
        "(of_char c :: nat) < 32" "(of_char c' :: nat) < 32" "x = y"
        by simp_all
      then have "(of_char c :: nat) = of_char c'" "x = y"
        using hex_pair_inj [of "of_char c" "of_char c'"] by simp_all
      then show ?thesis by simp
    qed
  qed
qed


lemma escape_char_not_quote: "escape_char c @ x \<noteq> CHR 0x22 # r"
  by (auto simp: escape_char_def split: if_splits)

lemma escaped_prefix:
  "concat (map escape_char s) @ CHR 0x22 # r = concat (map escape_char s') @ CHR 0x22 # r'
     \<Longrightarrow> s = s' \<and> r = r'"
proof (induction s arbitrary: s')
  case Nil
  then show ?case
    by (cases s') (simp_all add: escape_char_not_quote [symmetric])
next
  case (Cons c cs)
  show ?case
  proof (cases s')
    case Nil
    with Cons.prems show ?thesis by (simp add: escape_char_not_quote)
  next
    case (Cons c' cs')
    with Cons.prems have
      "escape_char c @ (concat (map escape_char cs) @ CHR 0x22 # r)
         = escape_char c' @ (concat (map escape_char cs') @ CHR 0x22 # r')"
      by simp
    from escape_char_prefix [OF this] Cons.IH [of cs'] Cons show ?thesis by simp
  qed
qed

lemma quote_prefix: "quote s @ r = quote s' @ r' \<Longrightarrow> s = s' \<and> r = r'"
  using escaped_prefix [of s r s' r'] by (simp add: quote_def)

lemma pair_prefix: "JSON_property kv @ r = JSON_property kv' @ r' \<Longrightarrow> kv = kv' \<and> r = r'"
proof -
  assume "JSON_property kv @ r = JSON_property kv' @ r'"
  then have a: "quote (fst kv) @ ('':'' @ quote (snd kv) @ r)
      = quote (fst kv') @ ('':'' @ quote (snd kv') @ r')"
    by (simp add: JSON_property_def)
  from quote_prefix [OF a] have k: "fst kv = fst kv'"
    and "quote (snd kv) @ r = quote (snd kv') @ r'" by simp_all
  from quote_prefix [OF this(2)] k show ?thesis by (simp add: prod_eq_iff)
qed

lemma JSON_property_hd: "\<exists>t. JSON_property kv = CHR 0x22 # t"
  by (simp add: JSON_property_def quote_def)

lemma join_Cons: "join sep (x # xs) = x @ (if xs = [] then [] else sep @ join sep xs)"
  by (cases xs) simp_all

lemma join_pairs_inj:
  "join '','' (map JSON_property q) @ ''}'' = join '','' (map JSON_property q') @ ''}'' \<Longrightarrow> q = q'"
proof (induction q arbitrary: q')
  case Nil
  show ?case
  proof (cases q')
    case Nil
    then show ?thesis by simp
  next
    case (Cons x xs)
    obtain t where "JSON_property x = CHR 0x22 # t" using JSON_property_hd by blast
    with Nil Cons show ?thesis by (simp add: join_Cons)
  qed
next
  case (Cons x xs)
  show ?case
  proof (cases q')
    case Nil
    obtain t where "JSON_property x = CHR 0x22 # t" using JSON_property_hd by blast
    with Nil Cons.prems show ?thesis by (simp add: join_Cons)
  next
    case (Cons y ys)
    let ?T = "\<lambda>zs. (if map JSON_property zs = [] then [] else '','' @ join '','' (map JSON_property zs)) @ ''}''"
    from Cons Cons.prems have "JSON_property x @ ?T xs = JSON_property y @ ?T ys"
      by (simp add: join_Cons)
    from pair_prefix [OF this] have xy: "x = y" and T: "?T xs = ?T ys" by simp_all
    have "xs = ys"
    proof (cases "xs = []")
      case True
      with T show ?thesis by (cases "ys = []") simp_all
    next
      case False
      with T have ys: "ys \<noteq> []" by (cases "ys = []") simp_all
      with False T have "join '','' (map JSON_property xs) @ ''}'' = join '','' (map JSON_property ys) @ ''}''"
        by simp
      then show ?thesis by (rule Cons.IH)
    qed
    with xy Cons show ?thesis by simp
  qed
qed

lemma JSON_stringify_query_inj: "JSON_stringify_query q = JSON_stringify_query q' \<Longrightarrow> q = q'"
  by (rule join_pairs_inj) (simp add: JSON_stringify_query_def)

lemma cacheKey_inj: "cacheKey u q = cacheKey u q' \<longleftrightarrow> q = q'"
  by (auto simp: cacheKey_def dest: JSON_stringify_query_inj)

subsection \<open>The cache key, continued\<close>

lemma cacheKey_owner:
  assumes "CHR '':'' \<notin> set A" and "CHR '':'' \<notin> set B" and "cacheKey A q = cacheKey B q'"
  shows "A = B"
proof -
  have tw: "takeWhile (\<lambda>c. c \<noteq> CHR '':'') (u @ CHR '':'' # t) = u" if "CHR '':'' \<notin> set u" for u t
    using that by (induction u) auto
  from assms(3) have "A @ CHR '':'' # JSON_stringify_query q = B @ CHR '':'' # JSON_stringify_query q'"
    by (simp add: cacheKey_def)
  then have "takeWhile (\<lambda>c. c \<noteq> CHR '':'') (A @ CHR '':'' # JSON_stringify_query q)
      = takeWhile (\<lambda>c. c \<noteq> CHR '':'') (B @ CHR '':'' # JSON_stringify_query q')"
    by simp
  with assms(1,2) show ?thesis by (simp add: tw)
qed

text \<open>
  Claim C3 as stated fails: two queries of one owner with the same value for every
  parameter, written in a different order, have different cache keys.
\<close>

theorem cacheKey_order_counterexample:
  "param q_page_limit = param q_limit_page
   \<and> cacheKey ''alice'' q_page_limit \<noteq> cacheKey ''alice'' q_limit_page"
proof
  show "param q_page_limit = param q_limit_page"
    by (rule ext) (simp add: param_def q_page_limit_def q_limit_page_def)
  have "q_page_limit \<noteq> q_limit_page"
    by (simp add: q_page_limit_def q_limit_page_def)
  then show "cacheKey ''alice'' q_page_limit \<noteq> cacheKey ''alice'' q_limit_page"
    by (simp add: cacheKey_inj)
qed

text \<open>
  Claim C3, amended. The cache key is \<^verbatim>\<open>"expenses:"\<close>, the owner id, a colon and the JSON
  text of the query object, its properties written in the order of the object. Two
  queries of one owner whose query objects have the same JSON text (the same properties
  with the same values in the same order) have the same key.
\<close>

theorem cacheKey_serialisation:
  "cacheKey userId q = ''expenses:'' @ userId @ '':'' @ JSON_stringify_query q
   \<and> JSON_stringify_query q = ''{'' @ join '','' (map (\<lambda>(k, v). quote k @ '':'' @ quote v) q) @ ''}''
   \<and> (JSON_stringify_query q = JSON_stringify_query q' \<longrightarrow> cacheKey userId q = cacheKey userId q')"
proof -
  have "JSON_property = (\<lambda>(k, v). quote k @ '':'' @ quote v)"
    by (rule ext) (simp add: JSON_property_def split_beta)
  then show ?thesis
    by (simp add: cacheKey_def JSON_stringify_query_def)
qed

theorem cacheKey_serialisation_witness:
  "cacheKey ''alice'' q_page_limit
     = ''expenses:alice:{'' @ quote ''page'' @ '':'' @ quote ''1'' @ '','' @ quote ''limit'' @ '':''
         @ quote ''10'' @ ''}''
   \<and> cacheKey ''alice'' [(''page'', ''1''), (''limit'', ''10'')] = cacheKey ''alice'' q_page_limit"
  using cacheKey_serialisation [of "''alice''" q_page_limit "[(''page'', ''1''), (''limit'', ''10'')]"]
        cacheKey_serialisation [of "''alice''" "[(''page'', ''1''), (''limit'', ''10'')]" q_page_limit]
  by (simp add: q_page_limit_def)

subsection \<open>Reading back the text of a JSON value\<close>

lemma hex_val_hex_digit: "d < 16 \<Longrightarrow> hex_val (hex_digit d) = d"
  by (auto simp: hex_val_def hex_digit_def numeral_eq_Suc less_Suc_eq)

lemma unescape_plain:
  "c \<noteq> CHR 0x22 \<Longrightarrow> c \<noteq> CHR 0x5C \<Longrightarrow> \<not> (of_char c :: nat) < 0x20 \<Longrightarrow>
   unescape (c # t) = (case unescape t of None \<Rightarrow> None | Some (s, r) \<Rightarrow> Some (c # s, r))"
  by simp

lemma unescape_short_step:
  "unescape_short d = Some x \<Longrightarrow>
   unescape (CHR 0x5C # d # t) = (case unescape t of None \<Rightarrow> None | Some (s, r) \<Rightarrow> Some (x # s, r))"
  by (auto simp: unescape_short_def split: if_splits)

lemma unescape_unicode_step:
  "hex_val h1 < 16 \<Longrightarrow> hex_val h2 < 16 \<Longrightarrow>
   unescape (CHR 0x5C # CHR ''u'' # CHR ''0'' # CHR ''0'' # h1 # h2 # t)
     = (case unescape t of None \<Rightarrow> None
        | Some (s, r) \<Rightarrow> Some (char_of (16 * hex_val h1 + hex_val h2) # s, r))"
  by simp


lemma unescape_escape_char:
  assumes "unescape t = Some (s, r)"
  shows "unescape (escape_char c @ t) = Some (c # s, r)"
proof -
  consider (dq) "c = CHR 0x22" | (bs) "c = CHR 0x5C" | (b) "c = CHR 0x08" | (t) "c = CHR 0x09"
    | (n) "c = CHR 0x0A" | (f) "c = CHR 0x0C" | (r) "c = CHR 0x0D"
    | (ctl) "c \<notin> set [CHR 0x22, CHR 0x5C, CHR 0x08, CHR 0x09, CHR 0x0A, CHR 0x0C, CHR 0x0D]"
            "(of_char c :: nat) < 0x20"
    | (plain) "c \<notin> set [CHR 0x22, CHR 0x5C, CHR 0x08, CHR 0x09, CHR 0x0A, CHR 0x0C, CHR 0x0D]"
            "\<not> (of_char c :: nat) < 0x20"
    by auto
  then show ?thesis
  proof cases
    case dq
    have "unescape_short (CHR 0x22) = Some (CHR 0x22)" by (simp add: unescape_short_def)
    from unescape_short_step [OF this, of t] assms dq show ?thesis
      by (simp add: escape_char_def del: unescape.simps)
  next
    case bs
    have "unescape_short (CHR 0x5C) = Some (CHR 0x5C)" by (simp add: unescape_short_def)
    from unescape_short_step [OF this, of t] assms bs show ?thesis
      by (simp add: escape_char_def del: unescape.simps)
  next
    case b
    have "unescape_short (CHR ''b'') = Some (CHR 0x08)" by (simp add: unescape_short_def)
    from unescape_short_step [OF this, of t] assms b show ?thesis
      by (simp add: escape_char_def del: unescape.simps)
  next
    case t
    have "unescape_short (CHR ''t'') = Some (CHR 0x09)" by (simp add: unescape_short_def)
    from unescape_short_step [OF this, of t] assms t show ?thesis
      by (simp add: escape_char_def del: unescape.simps)
  next
    case n
    have "unescape_short (CHR ''n'') = Some (CHR 0x0A)" by (simp add: unescape_short_def)
    from unescape_short_step [OF this, of t] assms n show ?thesis
      by (simp add: escape_char_def del: unescape.simps)
  next
    case f
    have "unescape_short (CHR ''f'') = Some (CHR 0x0C)" by (simp add: unescape_short_def)
    from unescape_short_step [OF this, of t] assms f show ?thesis
      by (simp add: escape_char_def del: unescape.simps)
  next
    case r
    have "unescape_short (CHR ''r'') = Some (CHR 0x0D)" by (simp add: unescape_short_def)
    from unescape_short_step [OF this, of t] assms r show ?thesis
      by (simp add: escape_char_def del: unescape.simps)
  next
    case ctl
    then have e: "escape_char c = [CHR 0x5C, CHR ''u'', CHR ''0'', CHR ''0'',
         hex_digit (of_char c div 16), hex_digit (of_char c mod 16)]"
      by (simp add: escape_char_def)
    from ctl have d: "(of_char c :: nat) div 16 < 16" "(of_char c :: nat) mod 16 < 16" by auto
    have again: "char_of (16 * ((of_char c :: nat) div 16) + of_char c mod 16) = c" by simp
    from d have "hex_val (hex_digit (of_char c div 16)) < 16"
      "hex_val (hex_digit (of_char c mod 16)) < 16"
      by (simp_all add: hex_val_hex_digit)
    from unescape_unicode_step [OF this, of t] assms d again show ?thesis
      by (simp add: e hex_val_hex_digit del: unescape.simps)
  next
    case plain
    then have "escape_char c = [c]" by (simp add: escape_char_def)
    with unescape_plain [of c t] plain assms show ?thesis
      by (simp del: unescape.simps)
  qed
qed

lemma unescape_escaped:
  "unescape (concat (map escape_char s) @ CHR 0x22 # rest) = Some (s, rest)"
proof (induction s)
  case Nil
  show ?case by simp
next
  case (Cons c s)
  from unescape_escape_char [OF Cons, of c] show ?case by (simp del: unescape.simps)
qed


lemma num_char_not_bracket:
  "num_char c \<Longrightarrow> c \<noteq> CHR '']'' \<and> c \<noteq> CHR ''}'' \<and> c \<noteq> CHR 0x22 \<and> c \<noteq> CHR ''[''
     \<and> c \<noteq> CHR ''{'' \<and> c \<noteq> CHR ''n'' \<and> c \<noteq> CHR ''t'' \<and> c \<noteq> CHR ''f''"
  by (auto simp: num_char_def)

lemma number_literal_nonempty: "number_literal lit \<Longrightarrow> lit \<noteq> []"
  by (auto simp: number_literal_def)

lemma JSON_stringify_first:
  "wf_json v \<Longrightarrow> \<exists>c cs. JSON_stringify v = c # cs \<and> c \<noteq> CHR '']'' \<and> c \<noteq> CHR ''}''"
proof (cases v)
  case (JNumber lit)
  assume "wf_json v"
  with JNumber have "list_all num_char lit" "lit \<noteq> []"
    by (simp_all add: number_literal_nonempty)
  then obtain c cs where "lit = c # cs" "num_char c" by (cases lit) auto
  with JNumber show ?thesis using num_char_not_bracket [of c] by simp
qed (simp_all add: quote_def)

lemma parse_number:
  assumes "list_all num_char lit" and "lit \<noteq> []" and "rest = [] \<or> \<not> num_char (hd rest)"
  shows "parse_value (Suc n) (lit @ rest) = Some (JNumber lit, rest)"
proof -
  from assms obtain c cs where lit: "lit = c # cs" and c: "num_char c" by (cases lit) auto
  from assms(1,3) have tw: "takeWhile num_char (lit @ rest) = lit"
    by (cases rest) (auto simp: list_all_iff takeWhile_append2)
  from assms(1,3) have dw: "dropWhile num_char (lit @ rest) = rest"
    by (cases rest) (auto simp: list_all_iff dropWhile_append2)
  from num_char_not_bracket [OF c] have
    "take 4 (lit @ rest) \<noteq> ''null''" "take 4 (lit @ rest) \<noteq> ''true''"
    "take 5 (lit @ rest) \<noteq> ''false''"
    unfolding lit by auto
  with c tw dw num_char_not_bracket [OF c] show ?thesis
    unfolding lit by simp
qed


lemma parse_string: "parse_value (Suc n) (quote s @ rest) = Some (JString s, rest)"
  by (simp add: quote_def unescape_escaped del: unescape.simps)

lemma parse_array:
  "parse_value (Suc n) (CHR ''['' # t)
     = (case parse_elements n t of None \<Rightarrow> None | Some (vs, r) \<Rightarrow> Some (JArray vs, r))"
  by simp

lemma parse_object:
  "parse_value (Suc n) (CHR ''{'' # t)
     = (case parse_members n t of None \<Rightarrow> None | Some (ms, r) \<Rightarrow> Some (JObject ms, r))"
  by simp

lemma parse_literals:
  "parse_value (Suc n) (''null'' @ rest) = Some (JNull, rest)"
  "parse_value (Suc n) (''true'' @ rest) = Some (JBool True, rest)"
  "parse_value (Suc n) (''false'' @ rest) = Some (JBool False, rest)"
  by simp_all

lemma parse_elements_end: "parse_elements (Suc n) (CHR '']'' # t) = Some ([], t)"
  by simp

lemma parse_elements_step:
  assumes "c \<noteq> CHR '']''" and "parse_value n (c # cs) = Some (v, d # ds)"
  shows "parse_elements (Suc n) (c # cs)
     = (if d = CHR '']'' then Some ([v], ds)
        else if d = CHR '','' then
          (case parse_elements n ds of
             None \<Rightarrow> None
           | Some (vs, r') \<Rightarrow> if vs = [] then None else Some (v # vs, r'))
        else None)"
  using assms by simp

lemma parse_members_end: "parse_members (Suc n) (CHR ''}'' # t) = Some ([], t)"
  by simp

lemma parse_members_step:
  assumes "parse_value n t = Some (v, d # ds)"
  shows "parse_members (Suc n) (quote k @ CHR '':'' # t)
     = (if d = CHR ''}'' then Some ([(k, v)], ds)
        else if d = CHR '','' then
          (case parse_members n ds of
             None \<Rightarrow> None
           | Some (ms, r') \<Rightarrow> if ms = [] then None else Some ((k, v) # ms, r'))
        else None)"
  using assms unescape_escaped [of k "CHR '':'' # t"]
  by (simp add: quote_def del: unescape.simps)

lemma parse_stringify:
  "wf_json v \<Longrightarrow> length (JSON_stringify v) \<le> n \<Longrightarrow> rest = [] \<or> \<not> num_char (hd rest) \<Longrightarrow>
     parse_value n (JSON_stringify v @ rest) = Some (v, rest)"
  "wf_elements vs \<Longrightarrow> length (stringify_elements vs) \<le> n \<Longrightarrow>
     parse_elements n (stringify_elements vs @ rest) = Some (vs, rest)"
  "wf_members ms \<Longrightarrow> length (stringify_members ms) \<le> n \<Longrightarrow>
     parse_members n (stringify_members ms @ rest) = Some (ms, rest)"
proof (induction v and vs and ms arbitrary: n rest and n rest and n rest
    rule: JSON_stringify_stringify_elements_stringify_members.induct)
  case 1
  then obtain m where "n = Suc m" by (cases n) auto
  then show ?case using parse_literals(1) by (simp del: parse_value.simps)
next
  case (2 b)
  then obtain m where "n = Suc m" by (cases n) (auto split: if_splits)
  then show ?case using parse_literals(2,3) by (simp del: parse_value.simps)
next
  case (3 lit)
  then have "lit \<noteq> []" by (simp add: number_literal_nonempty)
  with 3 obtain m where "n = Suc m" by (cases n) auto
  with 3 \<open>lit \<noteq> []\<close> show ?case using parse_number [of lit rest m] by (simp del: parse_value.simps)
next
  case (4 s)
  then obtain m where "n = Suc m" by (cases n) (auto simp: quote_def)
  then show ?case using parse_string by (simp del: parse_value.simps)
next
  case (5 vs)
  then obtain m where n: "n = Suc m" and "length (stringify_elements vs) \<le> m" by (cases n) auto
  with 5 have "parse_elements m (stringify_elements vs @ rest) = Some (vs, rest)" by simp
  with n show ?case by (simp add: parse_array del: parse_value.simps)
next
  case (6 ms)
  then obtain m where n: "n = Suc m" and "length (stringify_members ms) \<le> m" by (cases n) auto
  with 6 have "parse_members m (stringify_members ms @ rest) = Some (ms, rest)" by simp
  with n show ?case by (simp add: parse_object del: parse_value.simps)
next
  case 7
  then obtain m where "n = Suc m" by (cases n) auto
  then show ?case by (simp add: parse_elements_end del: parse_elements.simps)
next
  case (8 v vs)
  from 8(3) have wf: "wf_json v" "wf_elements vs" by simp_all
  from JSON_stringify_first [OF wf(1)] obtain c cs where
    first: "JSON_stringify v = c # cs" "c \<noteq> CHR '']''" by blast
  let ?tail = "(if vs = [] then '']'' else '','' @ stringify_elements vs) @ rest"
  from 8(4) obtain m where n: "n = Suc m" and m: "length (JSON_stringify v) < m + 1"
    by (cases n) (auto split: if_splits)
  have tail_ok: "?tail = [] \<or> \<not> num_char (hd ?tail)" by (simp add: num_char_def)
  from m have "length (JSON_stringify v) \<le> m" by simp
  from 8(1) [OF wf(1) this tail_ok]
  have pv: "parse_value m (c # cs @ ?tail) = Some (v, ?tail)" by (simp add: first)
  show ?case
  proof (cases "vs = []")
    case True
    with pv have "parse_value m (c # cs @ '']'' @ rest) = Some (v, CHR '']'' # rest)" by simp
    from parse_elements_step [OF first(2) this] True n first show ?thesis
      by (simp del: parse_elements.simps parse_value.simps)
  next
    case False
    with pv have pv': "parse_value m (c # cs @ '','' @ stringify_elements vs @ rest)
        = Some (v, CHR '','' # stringify_elements vs @ rest)" by simp
    from 8(4) n False have "length (stringify_elements vs) \<le> m" by simp
    from 8(2) [OF False wf(2) this]
    have "parse_elements m (stringify_elements vs @ rest) = Some (vs, rest)" .
    with parse_elements_step [OF first(2) pv'] False n first show ?thesis
      by (simp del: parse_elements.simps parse_value.simps)
  qed
next
  case 9
  then obtain m where "n = Suc m" by (cases n) auto
  then show ?case by (simp add: parse_members_end del: parse_members.simps)
next
  case (10 k v ms)
  from 10(3) have wf: "wf_json v" "wf_members ms" by simp_all
  let ?tail = "(if ms = [] then ''}'' else '','' @ stringify_members ms) @ rest"
  from 10(4) obtain m where n: "n = Suc m" and m: "length (JSON_stringify v) \<le> m"
    by (cases n) (auto split: if_splits)
  have tail_ok: "?tail = [] \<or> \<not> num_char (hd ?tail)" by (simp add: num_char_def)
  from 10(1) [OF wf(1) m tail_ok]
  have pv: "parse_value m (JSON_stringify v @ ?tail) = Some (v, ?tail)" .
  show ?case
  proof (cases "ms = []")
    case True
    with pv have "parse_value m (JSON_stringify v @ ''}'' @ rest) = Some (v, CHR ''}'' # rest)"
      by simp
    from parse_members_step [OF this, of k] True n show ?thesis
      by (simp del: parse_members.simps parse_value.simps)
  next
    case False
    with pv have pv': "parse_value m (JSON_stringify v @ '','' @ stringify_members ms @ rest)
        = Some (v, CHR '','' # stringify_members ms @ rest)" by simp
    from 10(4) n False have "length (stringify_members ms) \<le> m" by simp
    from 10(2) [OF False wf(2) this]
    have "parse_members m (stringify_members ms @ rest) = Some (ms, rest)" .
    with parse_members_step [OF pv', of k] False n show ?thesis
      by (simp del: parse_members.simps parse_value.simps)
  qed
qed

lemma JSON_parse_stringify: "wf_json v \<Longrightarrow> JSON_parse (JSON_stringify v) = Some v"
  using parse_stringify(1) [of v "length (JSON_stringify v)" "[]"]
  by (simp add: JSON_parse_def)

lemma JSON_parse_sound: "JSON_parse s = Some v \<Longrightarrow> wf_json v \<and> JSON_stringify v = s"
  by (auto simp: JSON_parse_def split: option.splits prod.splits list.splits if_splits)

lemma digit_char_digit:
  "d < 10 \<Longrightarrow> is_digit (digit_char d) \<and> (digit_char d = CHR ''0'' \<longleftrightarrow> d = 0)"
  by (auto simp: digit_char_def is_digit_def numeral_eq_Suc less_Suc_eq)

lemma show_nat_digits: "show_nat n \<noteq> [] \<and> list_all is_digit (show_nat n)"
proof (induction n rule: show_nat.induct)
  case (1 n)
  have eq: "show_nat n =
      (if n < 10 then [digit_char n] else show_nat (n div 10) @ [digit_char (n mod 10)])"
    by (rule show_nat.simps)
  show ?case
  proof (cases "n < 10")
    case True
    with eq have "show_nat n = [digit_char n]" by (simp del: show_nat.simps)
    with True digit_char_digit [of n] show ?thesis by (simp del: show_nat.simps)
  next
    case False
    with eq have "show_nat n = show_nat (n div 10) @ [digit_char (n mod 10)]"
      by (simp del: show_nat.simps)
    with 1 [OF False] digit_char_digit [of "n mod 10"] show ?thesis
      by (simp del: show_nat.simps)
  qed
qed

lemma show_nat_hd: "0 < n \<Longrightarrow> hd (show_nat n) \<noteq> CHR ''0''"
proof (induction n rule: show_nat.induct)
  case (1 n)
  have eq: "show_nat n =
      (if n < 10 then [digit_char n] else show_nat (n div 10) @ [digit_char (n mod 10)])"
    by (rule show_nat.simps)
  show ?case
  proof (cases "n < 10")
    case True
    with eq have "show_nat n = [digit_char n]" by (simp del: show_nat.simps)
    with True 1(2) digit_char_digit [of n] show ?thesis by (simp del: show_nat.simps)
  next
    case False
    with eq have s: "show_nat n = show_nat (n div 10) @ [digit_char (n mod 10)]"
      by (simp del: show_nat.simps)
    from False have "0 < n div 10" by simp
    from 1(1) [OF False this] show_nat_digits [of "n div 10"] show ?thesis
      by (simp add: s del: show_nat.simps)
  qed
qed

lemma number_literal_digits:
  assumes "s \<noteq> []" and "list_all is_digit s" and "s = ''0'' \<or> hd s \<noteq> CHR ''0''"
  shows "number_literal s \<and> number_literal (CHR ''-'' # s)"
proof -
  from assms(1,2) obtain c cs where s: "s = c # cs" and "is_digit c" by (cases s) auto
  then have "c \<noteq> CHR ''-''" by (auto simp: is_digit_def)
  moreover from assms(2) have "takeWhile is_digit s = s" "dropWhile is_digit s = []"
    by (simp_all add: list_all_iff)
  ultimately show ?thesis
    using assms(1,3) by (simp add: number_literal_def fraction_ok_def s)
qed

lemma is_digit_num_char: "is_digit c \<Longrightarrow> num_char c"
  by (auto simp: is_digit_def num_char_def)

lemma wf_show_nat: "wf_json (JNumber (show_nat n))"
proof -
  have "show_nat n = ''0'' \<or> hd (show_nat n) \<noteq> CHR ''0''"
  proof (cases "n = 0")
    case True
    then show ?thesis by (simp add: digit_char_def)
  next
    case False
    then show ?thesis by (simp add: show_nat_hd del: show_nat.simps)
  qed
  with number_literal_digits [of "show_nat n"] show_nat_digits [of n] show ?thesis
    by (auto simp: list_all_iff is_digit_num_char simp del: show_nat.simps)
qed

lemma wf_show_int: "wf_json (JNumber (show_int i))"
proof (cases "i < 0")
  case True
  then have "0 < nat (- i)" by simp
  then have "hd (show_nat (nat (- i))) \<noteq> CHR ''0''" by (rule show_nat_hd)
  with number_literal_digits [of "show_nat (nat (- i))"] show_nat_digits [of "nat (- i)"]
  have lit: "number_literal (CHR ''-'' # show_nat (nat (- i)))" by simp
  from show_nat_digits [of "nat (- i)"] have "list_all num_char (show_nat (nat (- i)))"
    by (auto simp: list_all_iff is_digit_num_char simp del: show_nat.simps)
  moreover have "num_char CHR ''-''" by (simp add: num_char_def)
  ultimately show ?thesis
    using lit True by (simp add: show_int_def del: show_nat.simps)
next
  case False
  with wf_show_nat [of "nat i"] show ?thesis by (simp add: show_int_def del: show_nat.simps)
qed

lemma wf_elements_iff: "wf_elements vs = list_all wf_json vs"
  by (induction vs) simp_all

lemma wf_result_json:
  assumes "list_all (\<lambda>e. wf_json (doc_toJSON X e)) (expenses r)"
  shows "wf_json (result_json X r)"
proof -
  have one: "wf_json (JNumber ''1'')"
    by (simp add: num_char_def number_literal_def is_digit_def fraction_ok_def)
  have page: "wf_json (case page r of None \<Rightarrow> JNumber ''1'' | Some s \<Rightarrow> JString s)"
    using one by (cases "page r") simp_all
  have pages: "wf_json (case totalPages r of Finite i \<Rightarrow> JNumber (show_int i) | _ \<Rightarrow> JNull)"
    using wf_show_int by (cases "totalPages r") simp_all
  from assms have "wf_elements (map (doc_toJSON X) (expenses r))"
    by (simp add: wf_elements_iff list_all_iff)
  with page pages wf_show_nat [of "total r"] show ?thesis
    by (simp add: result_json_def is_digits_def del: wf_json.simps(1) show_nat.simps)
qed

lemma JSON_parse_result:
  "list_all (\<lambda>e. wf_json (doc_toJSON X e)) (expenses r) \<Longrightarrow>
   JSON_parse (JSON_stringify_result X r) = Some (result_json X r)"
  by (simp add: JSON_stringify_result_def JSON_parse_stringify wf_result_json)

subsection \<open>The list response\<close>

lemma JSON_stringify_result_Cons: "\<exists>cs. JSON_stringify_result X r = CHR ''{'' # cs"
  by (simp add: JSON_stringify_result_def result_json_def)

lemma getExpenses_miss:
  assumes "redisClient_get rc now (cacheKey userId q) = Inr None"
  shows "getExpenses X rc st now userId q =
     (case queryStore X st userId q of
        Inl err \<Rightarrow> (Inl err, rc)
      | Inr result \<Rightarrow>
          (case redisClient_setEx rc now (cacheKey userId q) 300 (JSON_stringify_result X result) of
             Inl err \<Rightarrow> (Inl err, rc)
           | Inr rc' \<Rightarrow>
               (Inr (200, ApiResponse 200 (Fresh result) ''Expenses retrieved successfully''), rc')))"
  using assms by (simp add: getExpenses_def)

lemma getExpenses_Fresh_inv:
  assumes "getExpenses X rc st now userId q = (Inr (s, ApiResponse c (Fresh r) m), rc1)"
  shows "get_ok rc \<and> set_ok rc \<and> queryStore X st userId q = Inr r
       \<and> rc1 = rc\<lparr>entries := (entries rc)(cacheKey userId q \<mapsto> (JSON_stringify_result X r, now + 300))\<rparr>"
  using assms
  by (auto simp: getExpenses_def redisClient_get_def redisClient_setEx_def
      split: sum.splits option.splits list.splits if_splits)

lemma queryStore_ok:
  assumes "reachable st" and "list_all castable (buildQuery X userId q)"
    and "num_param q ''page'' 1 = Some p" and "1 \<le> p"
    and "num_param q ''limit'' 10 = Some l" and "1 \<le> l"
  shows "queryStore X st userId q =
     Inr \<lparr>expenses = take (nat l) (drop (nat ((p - 1) * l))
                        (sort_key (\<lambda>e. - date e) (matching X st userId q))),
          total = length (matching X st userId q), page = param q ''page'',
          totalPages = Finite \<lceil>real (length (matching X st userId q)) / real_of_int l\<rceil>\<rparr>"
proof -
  from assms have "0 \<le> (p - 1) * l" by simp
  then have "\<not> (p - 1) * l < 0" by simp
  moreover from assms have "\<And>xs :: expense list. apply_limit l xs = take (nat l) xs"
    by (simp add: apply_limit_def)
  ultimately show ?thesis
    using assms
    by (simp add: queryStore_def Expense_find_def Expense_countDocuments_def store_guard_def
        matching_def Math_ceil_div_def)
qed

lemma sorted_desc: "sorted_wrt (\<lambda>a b. date b \<le> date a) (sort_key (\<lambda>e. - date e) xs)"
proof -
  have "sorted (map (\<lambda>e. - date e) (sort_key (\<lambda>e. - date e) xs))" by (rule sorted_sort_key)
  then show ?thesis by (simp add: sorted_map)
qed

subsection \<open>Listing expenses\<close>

text \<open>
  Claim C6, amended. On the store path (no live cache entry, cache and store reachable,
  date bounds valid), for integers page \<open>p \<ge> 1\<close> and limit \<open>l \<ge> 1\<close> (absent ones default to
  1 and 10): the page holds the matching records, sorted by date descending, after
  skipping \<open>(p - 1) * l\<close> and taking at most \<open>l\<close>; the total is the number \<open>n\<close> of matching
  records and \<open>totalPages\<close> is the ceiling of \<open>n / l\<close>.
\<close>

theorem getExpenses_page:
  assumes miss: "redisClient_get rc now (cacheKey userId q) = Inr None"
    and cache_up: "set_ok rc"
    and store_up: "reachable st"
    and dates: "list_all castable (buildQuery X userId q)"
    and page: "num_param q ''page'' 1 = Some p" "1 \<le> p"
    and limit: "num_param q ''limit'' 10 = Some l" "1 \<le> l"
  shows "fst (getExpenses X rc st now userId q) =
           Inr (200, ApiResponse 200
             (Fresh \<lparr>expenses = take (nat l) (drop (nat ((p - 1) * l))
                                  (sort_key (\<lambda>e. - date e) (matching X st userId q))),
                     total = length (matching X st userId q),
                     page = param q ''page'',
                     totalPages = Finite \<lceil>real (length (matching X st userId q)) / real_of_int l\<rceil>\<rparr>)
             ''Expenses retrieved successfully'')
       \<and> sorted_wrt (\<lambda>a b. date b \<le> date a) (sort_key (\<lambda>e. - date e) (matching X st userId q))
       \<and> set (sort_key (\<lambda>e. - date e) (matching X st userId q)) = set (matching X st userId q)
       \<and> length (sort_key (\<lambda>e. - date e) (matching X st userId q)) = length (matching X st userId q)
       \<and> length (take (nat l) (drop (nat ((p - 1) * l))
                   (sort_key (\<lambda>e. - date e) (matching X st userId q))))
           = min (nat l) (length (matching X st userId q) - nat ((p - 1) * l))"
proof -
  have "fst (getExpenses X rc st now userId q) =
           Inr (200, ApiResponse 200
             (Fresh \<lparr>expenses = take (nat l) (drop (nat ((p - 1) * l))
                                  (sort_key (\<lambda>e. - date e) (matching X st userId q))),
                     total = length (matching X st userId q),
                     page = param q ''page'',
                     totalPages = Finite \<lceil>real (length (matching X st userId q)) / real_of_int l\<rceil>\<rparr>)
             ''Expenses retrieved successfully'')"
    using cache_up
    by (simp add: getExpenses_miss [OF miss] queryStore_ok [OF store_up dates page limit]
        redisClient_setEx_def)
  then show ?thesis by (simp add: sorted_desc)
qed

lemma matching_docs25:
  "matching X \<lparr>docs = docs25, reachable = True\<rparr> ''alice'' [(''page'', p), (''limit'', l)] = docs25"
  by (simp add: matching_def buildQuery_def param_def matches_def docs25_def ex1_def
      filter_map o_def)

lemma length_docs25: "length docs25 = 25"
  by (simp add: docs25_def)

theorem getExpenses_page_witness:
  "\<exists>r. fst (getExpenses X0 rc0 \<lparr>docs = docs25, reachable = True\<rparr> 0 ''alice''
              [(''page'', ''3''), (''limit'', ''10'')])
          = Inr (200, ApiResponse 200 (Fresh r) ''Expenses retrieved successfully'')
      \<and> length (expenses r) = 5 \<and> total r = 25 \<and> totalPages r = Finite 3"
proof -
  let ?q = "[(''page'', ''3''), (''limit'', ''10'')]"
  let ?st = "\<lparr>docs = docs25, reachable = True\<rparr>"
  have miss: "redisClient_get rc0 0 (cacheKey ''alice'' ?q) = Inr None"
    by (simp add: redisClient_get_def rc0_def)
  have dates: "list_all castable (buildQuery X0 ''alice'' ?q)"
    by (simp add: buildQuery_def param_def)
  have page: "num_param ?q ''page'' 1 = Some 3"
    by (simp add: num_param_def param_def ToNumber_def is_digits_def digits_val_def)
  have limit: "num_param ?q ''limit'' 10 = Some 10"
    by (simp add: num_param_def param_def ToNumber_def is_digits_def digits_val_def)
  from getExpenses_page [OF miss _ _ dates page _ limit, of ?st]
  show ?thesis
    by (simp add: rc0_def matching_docs25 length_docs25)
qed

text \<open>
  Claim C6 as stated fails for the limit 0: over 25 matching records the page holds all
  25 records, not at most 0, and \<open>totalPages\<close> is infinite.
\<close>

theorem getExpenses_limit_zero_counterexample:
  "fst (getExpenses X0 rc0 \<lparr>docs = docs25, reachable = True\<rparr> 0 ''alice'' [(''limit'', ''0'')])
     = Inr (200, ApiResponse 200 (Fresh r_limit_zero) ''Expenses retrieved successfully'')
   \<and> length (expenses r_limit_zero) = 25
   \<and> totalPages r_limit_zero = Infinity"
proof -
  let ?q = "[(''limit'', ''0'')]"
  have m: "filter (matches (buildQuery X0 ''alice'' ?q)) docs25 = docs25"
    by (simp add: buildQuery_def param_def matches_def docs25_def ex1_def filter_map o_def)
  have "queryStore X0 \<lparr>docs = docs25, reachable = True\<rparr> ''alice'' ?q = Inr r_limit_zero"
    by (simp add: queryStore_def num_param_def param_def ToNumber_def is_digits_def digits_val_def
        Expense_find_def Expense_countDocuments_def store_guard_def apply_limit_def
        Math_ceil_div_def m length_docs25 r_limit_zero_def sorted25_def)
      (simp add: buildQuery_def param_def)
  then show ?thesis
    by (simp add: getExpenses_def redisClient_get_def redisClient_setEx_def rc0_def)
      (simp add: r_limit_zero_def sorted25_def length_docs25)
qed

subsection \<open>The cache-aside read path\<close>

lemma ceiling_one_tenth: "\<lceil>1 / 10 :: real\<rceil> = 1"
  using ceiling_divide_eq_div [of 1 10] by simp

lemma queryStore_food:
  "queryStore X0 \<lparr>docs = [ex1, ex2], reachable = True\<rparr> ''alice'' q_food = Inr r_food"
  by (simp add: ceiling_one_tenth queryStore_def num_param_def param_def q_food_def Expense_find_def
      Expense_countDocuments_def store_guard_def apply_limit_def Math_ceil_div_def
      buildQuery_def matches_def ex1_def ex2_def r_food_def)

lemma getExpenses_food_first:
  "getExpenses X0 rc0 \<lparr>docs = [ex1, ex2], reachable = True\<rparr> 1000 ''alice'' q_food
     = (Inr (200, ApiResponse 200 (Fresh r_food) ''Expenses retrieved successfully''),
        rc0\<lparr>entries := (entries rc0)(cacheKey ''alice'' q_food \<mapsto> (JSON_stringify_result X0 r_food, 1300))\<rparr>)"
proof -
  have miss: "redisClient_get rc0 1000 (cacheKey ''alice'' q_food) = Inr None"
    by (simp add: redisClient_get_def rc0_def)
  have set_up: "set_ok rc0" by (simp add: rc0_def)
  then show ?thesis
    by (simp add: getExpenses_miss [OF miss] queryStore_food redisClient_setEx_def)
qed

text \<open>
  Claim C4 as stated fails: with a reachable store that answers the query, the list
  operation fails when the cache lookup fails, and when the cache write fails.
\<close>

theorem getExpenses_cache_down_counterexample:
  "getExpenses X0 (rc0\<lparr>get_ok := False\<rparr>) \<lparr>docs = [ex1, ex2], reachable = True\<rparr> 0 ''alice'' q_food
     = (Inl CacheUnavailable, rc0\<lparr>get_ok := False\<rparr>)
   \<and> queryStore X0 \<lparr>docs = [ex1, ex2], reachable = True\<rparr> ''alice'' q_food = Inr r_food
   \<and> getExpenses X0 (rc0\<lparr>set_ok := False\<rparr>) \<lparr>docs = [ex1, ex2], reachable = True\<rparr> 0 ''alice'' q_food
     = (Inl CacheUnavailable, rc0\<lparr>set_ok := False\<rparr>)"
  by (simp add: queryStore_food)
     (simp add: getExpenses_def redisClient_get_def redisClient_setEx_def rc0_def queryStore_food)

text \<open>
  Claim C4, amended. A failure of the cache lookup fails the list operation before the
  store is queried, and a failure of the cache write after a successful store query
  fails it as well: the error of the cache is thrown and no result is returned. An
  unreachable store fails the operation too.
\<close>

theorem getExpenses_cache_failure_propagates:
  "(\<not> get_ok rc \<longrightarrow> getExpenses X rc st now userId q = (Inl CacheUnavailable, rc))
   \<and> (redisClient_get rc now (cacheKey userId q) = Inr None
        \<and> queryStore X st userId q = Inr r \<and> \<not> set_ok rc \<longrightarrow>
          getExpenses X rc st now userId q = (Inl CacheUnavailable, rc))
   \<and> (redisClient_get rc now (cacheKey userId q) = Inr None \<and> \<not> reachable st
        \<and> num_param q ''page'' 1 = Some p \<and> num_param q ''limit'' 10 = Some l \<longrightarrow>
          getExpenses X rc st now userId q = (Inl StoreUnavailable, rc))"
proof (intro conjI impI)
  assume "\<not> get_ok rc"
  then show "getExpenses X rc st now userId q = (Inl CacheUnavailable, rc)"
    by (simp add: getExpenses_def redisClient_get_def)
next
  assume "redisClient_get rc now (cacheKey userId q) = Inr None
        \<and> queryStore X st userId q = Inr r \<and> \<not> set_ok rc"
  then show "getExpenses X rc st now userId q = (Inl CacheUnavailable, rc)"
    by (simp add: getExpenses_miss redisClient_setEx_def)
next
  assume "redisClient_get rc now (cacheKey userId q) = Inr None \<and> \<not> reachable st
        \<and> num_param q ''page'' 1 = Some p \<and> num_param q ''limit'' 10 = Some l"
  then show "getExpenses X rc st now userId q = (Inl StoreUnavailable, rc)"
    by (simp add: getExpenses_miss queryStore_def Expense_find_def store_guard_def)
qed

theorem getExpenses_cache_failure_witness:
  "getExpenses X0 (rc0\<lparr>get_ok := False\<rparr>) \<lparr>docs = [ex1, ex2], reachable = True\<rparr> 0 ''alice'' q_food
     = (Inl CacheUnavailable, rc0\<lparr>get_ok := False\<rparr>)
   \<and> getExpenses X0 (rc0\<lparr>set_ok := False\<rparr>) \<lparr>docs = [ex1, ex2], reachable = True\<rparr> 0 ''alice'' q_food
     = (Inl CacheUnavailable, rc0\<lparr>set_ok := False\<rparr>)
   \<and> getExpenses X0 rc0 \<lparr>docs = [ex1, ex2], reachable = False\<rparr> 0 ''alice'' q_food
     = (Inl StoreUnavailable, rc0)"
proof -
  have miss: "redisClient_get (rc0\<lparr>set_ok := b\<rparr>) 0 (cacheKey ''alice'' q_food) = Inr None" for b
    by (simp add: redisClient_get_def rc0_def)
  have nums: "num_param q_food ''page'' 1 = Some 1" "num_param q_food ''limit'' 10 = Some 10"
    by (simp_all add: num_param_def param_def q_food_def)
  from getExpenses_cache_failure_propagates
         [of "rc0\<lparr>get_ok := False\<rparr>" X0 "\<lparr>docs = [ex1, ex2], reachable = True\<rparr>" 0 "''alice''" q_food]
       getExpenses_cache_failure_propagates
         [of "rc0\<lparr>set_ok := False\<rparr>" X0 "\<lparr>docs = [ex1, ex2], reachable = True\<rparr>" 0 "''alice''" q_food r_food]
       getExpenses_cache_failure_propagates
         [of "rc0\<lparr>set_ok := True\<rparr>" X0 "\<lparr>docs = [ex1, ex2], reachable = False\<rparr>" 0 "''alice''" q_food _ 1 10]
       miss [of False] miss [of True] nums queryStore_food
  show ?thesis by (simp add: rc0_def)
qed

text \<open>
  Claim C5. After a list query answered from the store at \<open>t1\<close>, the same query of the
  same owner at any \<open>t2 < t1 + 300\<close> is answered from the cache, whatever the store holds
  by then and whether it is reachable or not: the second response carries the value read
  back from the text that the first query wrote, which is the JSON value of the first
  result, so both responses serialise to the same payload; the cache is unchanged. Each
  document is assumed to serialise to well-formed JSON.
\<close>

theorem getExpenses_second_query_from_cache:
  assumes first: "getExpenses X rc st t1 userId q = (Inr (200, ApiResponse 200 (Fresh r) m), rc1)"
    and window: "t2 < t1 + 300"
    and docs_json: "list_all (\<lambda>e. wf_json (doc_toJSON X e)) (expenses r)"
  shows "getExpenses X rc1 st2 t2 userId q =
           (Inr (200, ApiResponse 200 (Cached (result_json X r)) ''Expenses retrieved from cache''),
            rc1)
       \<and> redisClient_get rc1 t2 (cacheKey userId q) = Inr (Some (JSON_stringify_result X r))
       \<and> JSON_parse (JSON_stringify_result X r) = Some (result_json X r)
       \<and> payload X (Cached (result_json X r)) = payload X (Fresh r)
       \<and> JSON_stringify (payload X (Cached (result_json X r))) = JSON_stringify_result X r"
proof -
  from getExpenses_Fresh_inv [OF first]
  have up: "get_ok rc"
    and rc1: "rc1 = rc\<lparr>entries := (entries rc)(cacheKey userId q \<mapsto> (JSON_stringify_result X r, t1 + 300))\<rparr>"
    by simp_all
  from up rc1 window
  have hit: "redisClient_get rc1 t2 (cacheKey userId q) = Inr (Some (JSON_stringify_result X r))"
    by (simp add: redisClient_get_def)
  have parse: "JSON_parse (JSON_stringify_result X r) = Some (result_json X r)"
    using docs_json by (rule JSON_parse_result)
  obtain cs where "JSON_stringify_result X r = CHR ''{'' # cs"
    using JSON_stringify_result_Cons by blast
  with hit parse have "getExpenses X rc1 st2 t2 userId q =
           (Inr (200, ApiResponse 200 (Cached (result_json X r)) ''Expenses retrieved from cache''),
            rc1)"
    by (simp add: getExpenses_def)
  with hit parse show ?thesis by (simp add: JSON_stringify_result_def)
qed

lemma wf_docs_food: "list_all (\<lambda>e. wf_json (doc_toJSON X0 e)) (expenses r_food)"
  by (simp add: r_food_def X0_def is_digits_def)

theorem getExpenses_second_query_witness:
  "getExpenses X0 rc0 \<lparr>docs = [ex1, ex2], reachable = True\<rparr> 1000 ''alice'' q_food
     = (Inr (200, ApiResponse 200 (Fresh r_food) ''Expenses retrieved successfully''),
        rc0\<lparr>entries := (entries rc0)(cacheKey ''alice'' q_food \<mapsto> (JSON_stringify_result X0 r_food, 1300))\<rparr>)
   \<and> getExpenses X0
        (rc0\<lparr>entries := (entries rc0)(cacheKey ''alice'' q_food \<mapsto> (JSON_stringify_result X0 r_food, 1300))\<rparr>)
        \<lparr>docs = [], reachable = False\<rparr> 1299 ''alice'' q_food
     = (Inr (200, ApiResponse 200 (Cached (result_json X0 r_food))
              ''Expenses retrieved from cache''),
        rc0\<lparr>entries := (entries rc0)(cacheKey ''alice'' q_food \<mapsto> (JSON_stringify_result X0 r_food, 1300))\<rparr>)
   \<and> payload X0 (Cached (result_json X0 r_food)) = payload X0 (Fresh r_food)"
  using getExpenses_second_query_from_cache
         [OF getExpenses_food_first _ wf_docs_food, of 1299 "\<lparr>docs = [], reachable = False\<rparr>"]
       getExpenses_food_first
  by simp

subsection \<open>Statistics\<close>

lemma parsePipeline_statistics:
  "parsePipeline (statisticsPipeline m) = Some (unrecognized ''$$this.category'')"
  by (simp add: statisticsPipeline_def operator_shaped_def)

lemma getExpenseStatistics_never_returns:
  "getExpenseStatistics exec X st now userId q =
     Inl (if reachable st then unrecognized ''$$this.category'' else StoreUnavailable)"
  by (simp add: getExpenseStatistics_def Expense_aggregate_def parsePipeline_statistics)

text \<open>
  Claim C1. The statistics operation is to return the total, the mean and the sums per
  category and per month. The pipeline of the source uses the strings
  \<^verbatim>\<open>"$$this.category"\<close> and \<^verbatim>\<open>$$monthYear\<close> as keys of object literals; the engine reads such
  a key as the name of an operator and refuses the pipeline. For the three records of
  the specification's example (10, 20 and 30, all food, all in January 2024) the
  operation throws, whatever the engine would compute for a pipeline it accepts. The
  category pipeline of \<^verbatim>\<open>getExpenseSummary\<close>, which groups on the field, passes the same
  check.
\<close>

theorem getExpenseStatistics_example_rejected:
  "getExpenseStatistics exec X \<lparr>docs = [ex1, ex_food20, ex_food30], reachable = True\<rparr> now
       ''alice'' []
     = Inl (MongoServerError ''InvalidPipelineOperator'' ''$$this.category'')
   \<and> parsePipeline (summaryCategoriesPipeline ''alice'') = None"
  by (simp add: getExpenseStatistics_never_returns unrecognized_def
      summaryCategoriesPipeline_def operator_shaped_def)

text \<open>
  Claim C2. With no matching record the statistics operation is to return an empty
  result, a total of 0 and empty grouped maps, without crashing. The operation sends the
  same pipeline whatever the store holds, and the engine refuses that pipeline before it
  reads a record: for an owner without any record, and for an owner whose filter matches
  no record of a store that holds records of another owner, the operation throws.
\<close>

theorem getExpenseStatistics_no_match_rejected:
  "getExpenseStatistics exec X \<lparr>docs = [], reachable = True\<rparr> now ''alice'' []
     = Inl (MongoServerError ''InvalidPipelineOperator'' ''$$this.category'')
   \<and> getExpenseStatistics exec X \<lparr>docs = [ex2], reachable = True\<rparr> now ''alice''
         [(''category'', ''travel'')]
     = Inl (MongoServerError ''InvalidPipelineOperator'' ''$$this.category'')
   \<and> filter (matches (buildQuery X ''alice'' [(''category'', ''travel'')])) [ex2] = []"
  by (simp add: getExpenseStatistics_never_returns unrecognized_def buildQuery_def param_def
      matches_def ex2_def)

text \<open>
  The last line of the handler, \<^verbatim>\<open>statistics[0] || {}\<close>: for an aggregation without a
  result document the payload is the empty object, and a field of the payload is always
  a field of the first result document.
\<close>

lemma statisticsResponse_fallback:
  "statisticsResponse [] =
     (200, ApiResponse 200 (BDoc []) ''Expense statistics retrieved successfully'')
   \<and> bdoc_get (data (snd (statisticsResponse []))) k = None
   \<and> (bdoc_get (data (snd (statisticsResponse statistics))) k = Some v \<longrightarrow>
        (\<exists>d ds. statistics = d # ds \<and> bdoc_get d k = Some v))"
proof (intro conjI impI)
  show "statisticsResponse [] =
     (200, ApiResponse 200 (BDoc []) ''Expense statistics retrieved successfully'')"
    by (simp add: statisticsResponse_def first_or_empty_def)
  show "bdoc_get (data (snd (statisticsResponse []))) k = None"
    by (simp add: statisticsResponse_def first_or_empty_def bdoc_get_def)
next
  assume field: "bdoc_get (data (snd (statisticsResponse statistics))) k = Some v"
  show "\<exists>d ds. statistics = d # ds \<and> bdoc_get d k = Some v"
  proof (cases statistics)
    case Nil
    with field show ?thesis
      by (simp add: statisticsResponse_def first_or_empty_def bdoc_get_def)
  next
    case (Cons d ds)
    with field show ?thesis
      by (cases "truthy d") (simp_all add: statisticsResponse_def first_or_empty_def bdoc_get_def)
  qed
qed

subsection \<open>Owner scoping\<close>

lemma matches_owner: "matches (buildQuery X A q) e \<Longrightarrow> user e = A"
  by (simp add: matches_def buildQuery_def)

lemma apply_limit_subset: "set (apply_limit l xs) \<subseteq> set xs"
  by (auto simp: apply_limit_def dest: in_set_takeD)

lemma queryStore_owner:
  assumes "queryStore X st A q = Inr r" and "e \<in> set (expenses r)"
  shows "user e = A \<and> e \<in> set (docs st)"
proof -
  from assms(1) obtain l k where
    "expenses r = apply_limit l (drop k (sort_key (\<lambda>e. - date e)
        (filter (matches (buildQuery X A q)) (docs st))))"
    by (auto simp: queryStore_def Expense_find_def Expense_countDocuments_def
        split: option.splits sum.splits if_splits)
  with assms(2) have "e \<in> set (drop k (sort_key (\<lambda>e. - date e)
        (filter (matches (buildQuery X A q)) (docs st))))"
    using apply_limit_subset by fastforce
  then have "e \<in> set (filter (matches (buildQuery X A q)) (docs st))"
    by (auto dest: in_set_dropD)
  then show ?thesis by (auto dest: matches_owner)
qed

lemma apply_update_user: "user (apply_update b e) = user e"
  by (simp add: apply_update_def)

lemma update_first_others:
  "filter (\<lambda>e. user e \<noteq> A) (snd (update_first [IdIs i, UserIs A] b ds))
     = filter (\<lambda>e. user e \<noteq> A) ds"
  by (induction ds) (auto simp: matches_id_user apply_update_user split: prod.splits)

lemma delete_first_others:
  "filter (\<lambda>e. user e \<noteq> A) (snd (delete_first [IdIs i, UserIs A] ds))
     = filter (\<lambda>e. user e \<noteq> A) ds"
  by (induction ds) (auto simp: matches_id_user split: prod.splits)

lemma update_first_returns_owned:
  "fst (update_first [IdIs i, UserIs A] b ds) = Some e \<Longrightarrow> user e = A"
  by (induction ds) (auto simp: matches_id_user apply_update_user split: prod.splits if_splits)

lemma updateExpense_others:
  "filter (\<lambda>e. user e \<noteq> A) (docs (snd (updateExpense st A i b))) = filter (\<lambda>e. user e \<noteq> A) (docs st)"
proof (cases "store_guard st [IdIs i, UserIs A]")
  case (Some err)
  then show ?thesis by (simp add: updateExpense_def Expense_findOneAndUpdate_def)
next
  case None
  obtain r ds where u: "update_first [IdIs i, UserIs A] b (docs st) = (r, ds)"
    by (cases "update_first [IdIs i, UserIs A] b (docs st)")
  with update_first_others [of A i b "docs st"]
  have "filter (\<lambda>e. user e \<noteq> A) ds = filter (\<lambda>e. user e \<noteq> A) (docs st)" by simp
  with None u show ?thesis
    by (cases r) (simp_all add: updateExpense_def Expense_findOneAndUpdate_def)
qed

lemma deleteExpense_others:
  "filter (\<lambda>e. user e \<noteq> A) (docs (snd (deleteExpense st A i))) = filter (\<lambda>e. user e \<noteq> A) (docs st)"
proof (cases "store_guard st [IdIs i, UserIs A]")
  case (Some err)
  then show ?thesis by (simp add: deleteExpense_def Expense_findOneAndDelete_def)
next
  case None
  obtain r ds where u: "delete_first [IdIs i, UserIs A] (docs st) = (r, ds)"
    by (cases "delete_first [IdIs i, UserIs A] (docs st)")
  with delete_first_others [of A i "docs st"]
  have "filter (\<lambda>e. user e \<noteq> A) ds = filter (\<lambda>e. user e \<noteq> A) (docs st)" by simp
  with None u show ?thesis
    by (cases r) (simp_all add: deleteExpense_def Expense_findOneAndDelete_def)
qed

lemma bulkDeleteExpenses_others:
  "filter (\<lambda>e. user e \<noteq> A) (docs (snd (bulkDeleteExpenses st A ids))) = filter (\<lambda>e. user e \<noteq> A) (docs st)"
proof -
  have "filter (\<lambda>e. user e \<noteq> A) (filter (\<lambda>e. \<not> matches [IdIn js, UserIs A] e) ds)
      = filter (\<lambda>e. user e \<noteq> A) ds" for js ds
    by (induction ds) (auto simp: matches_in_user)
  then show ?thesis
    by (auto simp: bulkDeleteExpenses_def Expense_deleteMany_def
        split: ids_field.splits list.splits option.splits)
qed

lemma updateExpense_returns_owned:
  assumes "fst (updateExpense st A i b) = Inr (s, ApiResponse c e m)"
  shows "user e = A"
proof -
  obtain r ds where u: "update_first [IdIs i, UserIs A] b (docs st) = (r, ds)"
    by (cases "update_first [IdIs i, UserIs A] b (docs st)")
  with assms have "r = Some e"
    by (auto simp: updateExpense_def Expense_findOneAndUpdate_def
        split: option.splits sum.splits prod.splits)
  with u update_first_returns_owned [of i A b "docs st" e] show ?thesis by simp
qed

lemma cache_scoped_empty: "cache_scoped X \<lparr>entries = (\<lambda>k. None), get_ok = g, set_ok = s\<rparr>"
  by (simp add: cache_scoped_def)

lemma getExpenses_cache_cases:
  "snd (getExpenses X rc st now A q) = rc
   \<or> (\<exists>r. queryStore X st A q = Inr r
        \<and> snd (getExpenses X rc st now A q)
            = rc\<lparr>entries := (entries rc)(cacheKey A q \<mapsto> (JSON_stringify_result X r, now + 300))\<rparr>)"
  by (auto simp: getExpenses_def redisClient_get_def redisClient_setEx_def
      split: sum.splits option.splits list.splits if_splits)

lemma getExpenses_keeps_scoped:
  assumes inv: "cache_scoped X rc" and A: "CHR '':'' \<notin> set A"
  shows "cache_scoped X (snd (getExpenses X rc st now A q))"
proof -
  from getExpenses_cache_cases [of X rc st now A q]
  consider "snd (getExpenses X rc st now A q) = rc"
    | r where "queryStore X st A q = Inr r"
        "snd (getExpenses X rc st now A q)
            = rc\<lparr>entries := (entries rc)(cacheKey A q \<mapsto> (JSON_stringify_result X r, now + 300))\<rparr>"
    by blast
  then show ?thesis
  proof cases
    case 1
    with inv show ?thesis by simp
  next
    case 2
    from 2(1) have owned: "list_all (\<lambda>e. user e = A) (expenses r)"
      by (simp add: list_all_iff queryStore_owner)
    show ?thesis
      unfolding cache_scoped_def 2(2)
    proof (intro allI impI)
      fix u q' v t
      assume u: "CHR '':'' \<notin> set u"
        and e: "entries (rc\<lparr>entries := (entries rc)(cacheKey A q \<mapsto> (JSON_stringify_result X r, now + 300))\<rparr>)
                 (cacheKey u q') = Some (v, t)"
      show "\<exists>r. v = JSON_stringify_result X r \<and> list_all (\<lambda>e. user e = u) (expenses r)"
      proof (cases "cacheKey u q' = cacheKey A q")
        case True
        with u A have "u = A" by (rule cacheKey_owner)
        with True e owned show ?thesis by auto
      next
        case False
        with e have "entries rc (cacheKey u q') = Some (v, t)" by simp
        with inv u show ?thesis unfolding cache_scoped_def by blast
      qed
    qed
  qed
qed

lemma getExpenses_cached_scoped:
  assumes inv: "cache_scoped X rc" and A: "CHR '':'' \<notin> set A"
    and hit: "getExpenses X rc st now A q = (Inr (s, ApiResponse c (Cached j) m), rc')"
  shows "\<exists>r. JSON_parse (JSON_stringify_result X r) = Some j
            \<and> list_all (\<lambda>e. user e = A) (expenses r)"
proof -
  from hit obtain v t where "entries rc (cacheKey A q) = Some (v, t)" "JSON_parse v = Some j"
    by (auto simp: getExpenses_def redisClient_get_def redisClient_setEx_def
        split: sum.splits option.splits list.splits if_splits)
  with inv A show ?thesis unfolding cache_scoped_def by blast
qed

lemma getExpenses_food_second:
  "getExpenses X0
        (rc0\<lparr>entries := (entries rc0)(cacheKey ''alice'' q_food \<mapsto> (JSON_stringify_result X0 r_food, 1300))\<rparr>)
        st 1299 ''alice'' q_food
     = (Inr (200, ApiResponse 200 (Cached (result_json X0 r_food))
              ''Expenses retrieved from cache''),
        rc0\<lparr>entries := (entries rc0)(cacheKey ''alice'' q_food \<mapsto> (JSON_stringify_result X0 r_food, 1300))\<rparr>)"
proof -
  obtain cs where "JSON_stringify_result X0 r_food = CHR ''{'' # cs"
    using JSON_stringify_result_Cons by blast
  moreover have "JSON_parse (JSON_stringify_result X0 r_food) = Some (result_json X0 r_food)"
    using wf_docs_food by (rule JSON_parse_result)
  moreover have "get_ok rc0" by (simp add: rc0_def)
  ultimately show ?thesis by (simp add: getExpenses_def redisClient_get_def)
qed

text \<open>
  Claim C7. Every operation of an owner \<open>A\<close> carries \<open>A\<close> in its store filter. The list
  read from the store holds only documents of \<open>A\<close>; the match stage of the statistics
  pipeline is on \<open>A\<close>; update, delete and bulk delete leave the documents of every other
  owner as they are, and update returns a document of \<open>A\<close>. The cache key of \<open>A\<close> is
  never the cache key of another owner, so a list read from the cache is the parsed text
  of a result that holds documents of \<open>A\<close> only, as long as the cache is written by
  list queries alone.
\<close>

theorem owner_scoping:
  "(getExpenses X rc st now A q = (Inr (s, ApiResponse c (Fresh r) m), rc1) \<longrightarrow>
      list_all (\<lambda>e. user e = A \<and> e \<in> set (docs st)) (expenses r))
   \<and> hd (buildQuery X A q) = UserIs A
   \<and> bdoc_get (matchStage X t A q) ''user'' = Some (BObjectId A)
   \<and> hd (statisticsPipeline (matchStage X t A q)) = BDoc [(''$match'', matchStage X t A q)]
   \<and> filter (\<lambda>e. user e \<noteq> A) (docs (snd (updateExpense st A i b)))
       = filter (\<lambda>e. user e \<noteq> A) (docs st)
   \<and> (fst (updateExpense st A i b) = Inr (s', ApiResponse c' e m') \<longrightarrow> user e = A)
   \<and> filter (\<lambda>e. user e \<noteq> A) (docs (snd (deleteExpense st A i)))
       = filter (\<lambda>e. user e \<noteq> A) (docs st)
   \<and> filter (\<lambda>e. user e \<noteq> A) (docs (snd (bulkDeleteExpenses st A ids)))
       = filter (\<lambda>e. user e \<noteq> A) (docs st)
   \<and> (CHR '':'' \<notin> set A \<and> CHR '':'' \<notin> set B \<and> A \<noteq> B \<longrightarrow> cacheKey A q \<noteq> cacheKey B q')
   \<and> cache_scoped X \<lparr>entries = (\<lambda>k. None), get_ok = g, set_ok = g'\<rparr>
   \<and> (CHR '':'' \<notin> set A \<and> cache_scoped X rc \<longrightarrow>
        cache_scoped X (snd (getExpenses X rc st now A q)))
   \<and> (CHR '':'' \<notin> set A \<and> cache_scoped X rc
        \<and> getExpenses X rc st now A q = (Inr (s, ApiResponse c (Cached j) m), rc1) \<longrightarrow>
        (\<exists>r'. JSON_parse (JSON_stringify_result X r') = Some j
             \<and> list_all (\<lambda>e. user e = A) (expenses r')))"
proof (intro conjI impI)
  assume "getExpenses X rc st now A q = (Inr (s, ApiResponse c (Fresh r) m), rc1)"
  from getExpenses_Fresh_inv [OF this] have "queryStore X st A q = Inr r" by simp
  then show "list_all (\<lambda>e. user e = A \<and> e \<in> set (docs st)) (expenses r)"
    by (simp add: list_all_iff queryStore_owner)
next
  show "hd (buildQuery X A q) = UserIs A" by (simp add: buildQuery_def)
  show "bdoc_get (matchStage X t A q) ''user'' = Some (BObjectId A)"
    by (simp add: matchStage_def bdoc_get_def)
  show "hd (statisticsPipeline (matchStage X t A q)) = BDoc [(''$match'', matchStage X t A q)]"
    by (simp add: statisticsPipeline_def)
  show "filter (\<lambda>e. user e \<noteq> A) (docs (snd (updateExpense st A i b)))
       = filter (\<lambda>e. user e \<noteq> A) (docs st)"
    by (rule updateExpense_others)
  show "filter (\<lambda>e. user e \<noteq> A) (docs (snd (deleteExpense st A i)))
       = filter (\<lambda>e. user e \<noteq> A) (docs st)"
    by (rule deleteExpense_others)
  show "filter (\<lambda>e. user e \<noteq> A) (docs (snd (bulkDeleteExpenses st A ids)))
       = filter (\<lambda>e. user e \<noteq> A) (docs st)"
    by (rule bulkDeleteExpenses_others)
  show "cache_scoped X \<lparr>entries = (\<lambda>k. None), get_ok = g, set_ok = g'\<rparr>"
    by (rule cache_scoped_empty)
next
  assume "fst (updateExpense st A i b) = Inr (s', ApiResponse c' e m')"
  then show "user e = A" by (rule updateExpense_returns_owned)
next
  assume "CHR '':'' \<notin> set A \<and> CHR '':'' \<notin> set B \<and> A \<noteq> B"
  then show "cacheKey A q \<noteq> cacheKey B q'" using cacheKey_owner by blast
next
  assume "CHR '':'' \<notin> set A \<and> cache_scoped X rc"
  then show "cache_scoped X (snd (getExpenses X rc st now A q))"
    by (simp add: getExpenses_keeps_scoped)
next
  assume "CHR '':'' \<notin> set A \<and> cache_scoped X rc
        \<and> getExpenses X rc st now A q = (Inr (s, ApiResponse c (Cached j) m), rc1)"
  then show "\<exists>r'. JSON_parse (JSON_stringify_result X r') = Some j
             \<and> list_all (\<lambda>e. user e = A) (expenses r')"
    using getExpenses_cached_scoped [of X rc A st now q s c j m rc1] by simp
qed

theorem owner_scoping_witness:
  "list_all (\<lambda>e. user e = ''alice'') (expenses r_food)
   \<and> filter (\<lambda>e. user e \<noteq> ''alice'')
        (docs (snd (updateExpense \<lparr>docs = [ex1, ex2], reachable = True\<rparr> ''alice'' ''650000000000000000000002''
           \<lparr>b_amount = Some 5, b_description = None, b_date = None, b_category = None,
            b_paymentMethod = None\<rparr>))) = [ex2]
   \<and> filter (\<lambda>e. user e \<noteq> ''alice'')
        (docs (snd (deleteExpense \<lparr>docs = [ex1, ex2], reachable = True\<rparr> ''alice'' ''650000000000000000000002''))) = [ex2]
   \<and> filter (\<lambda>e. user e \<noteq> ''alice'')
        (docs (snd (bulkDeleteExpenses \<lparr>docs = [ex1, ex2], reachable = True\<rparr> ''alice''
           (IdArray [''650000000000000000000001'', ''650000000000000000000002'']))))  = [ex2]
   \<and> cacheKey ''alice'' q_food \<noteq> cacheKey ''bob'' q_food
   \<and> cache_scoped X0
        (rc0\<lparr>entries := (entries rc0)(cacheKey ''alice'' q_food \<mapsto> (JSON_stringify_result X0 r_food, 1300))\<rparr>)
   \<and> (\<exists>r'. JSON_parse (JSON_stringify_result X0 r') = Some (result_json X0 r_food)
           \<and> list_all (\<lambda>e. user e = ''alice'') (expenses r'))"
proof -
  let ?st = "\<lparr>docs = [ex1, ex2], reachable = True\<rparr>"
  let ?b = "\<lparr>b_amount = Some 5, b_description = None, b_date = None, b_category = None,
            b_paymentMethod = None\<rparr>"
  let ?rc1 = "rc0\<lparr>entries := (entries rc0)(cacheKey ''alice'' q_food \<mapsto> (JSON_stringify_result X0 r_food, 1300))\<rparr>"
  have colon: "CHR '':'' \<notin> set ''alice''" "CHR '':'' \<notin> set ''bob''" "''alice'' \<noteq> ''bob''"
    by simp_all
  have sc0: "cache_scoped X0 rc0"
    using owner_scoping [where X = X0 and g = True and g' = True] by (simp add: rc0_def)
  note one = owner_scoping
      [where X = X0 and rc = rc0 and st = ?st and now = 1000 and A = "''alice''" and q = q_food
         and s = 200 and c = 200 and r = r_food and m = "''Expenses retrieved successfully''"
         and ?rc1.0 = ?rc1 and i = "''650000000000000000000002''" and b = ?b and ids = "IdArray [''650000000000000000000001'', ''650000000000000000000002'']"
         and B = "''bob''" and q' = q_food]
  from one sc0 colon getExpenses_food_first
  have part1: "list_all (\<lambda>e. user e = ''alice'') (expenses r_food)"
    and sc1: "cache_scoped X0 ?rc1"
    and keys: "cacheKey ''alice'' q_food \<noteq> cacheKey ''bob'' q_food"
    and others:
      "filter (\<lambda>e. user e \<noteq> ''alice'') (docs (snd (updateExpense ?st ''alice'' ''650000000000000000000002'' ?b))) = [ex2]"
      "filter (\<lambda>e. user e \<noteq> ''alice'') (docs (snd (deleteExpense ?st ''alice'' ''650000000000000000000002''))) = [ex2]"
      "filter (\<lambda>e. user e \<noteq> ''alice'')
         (docs (snd (bulkDeleteExpenses ?st ''alice'' (IdArray [''650000000000000000000001'', ''650000000000000000000002''])))) = [ex2]"
    by (simp_all add: list_all_iff ex1_def ex2_def)
  from owner_scoping
      [where X = X0 and rc = ?rc1 and st = ?st and now = 1299 and A = "''alice''" and q = q_food
         and s = 200 and c = 200 and j = "result_json X0 r_food"
         and m = "''Expenses retrieved from cache''" and ?rc1.0 = ?rc1]
    sc1 colon getExpenses_food_second [of ?st]
  have "\<exists>r'. JSON_parse (JSON_stringify_result X0 r') = Some (result_json X0 r_food)
           \<and> list_all (\<lambda>e. user e = ''alice'') (expenses r')"
    by simp
  with part1 sc1 keys others show ?thesis by simp
qed

end
